theory Spec2Isabelle
  imports Complex_Main "HOL-Library.Word"
begin

section \<open>Data model of the whiteboard (src/components/traders/Whiteboard.tsx)\<close>

text \<open>
  JavaScript numbers are modelled as real numbers: rounding, NaN and the infinities of
  IEEE doubles are outside the model. An optional field of an interface is an
  \<open>option\<close>; \<open>undefined\<close> is \<open>None\<close>. The text of a text element is a
  sequence of UTF-16 code units, as a JavaScript string is; identifiers, colours and
  font names are opaque strings. \<open>JSON.parse(JSON.stringify(v))\<close> is the identity on
  the values of this model (plain records, lists, strings and numbers).
\<close>

type_synonym jsstring = "16 word list"

record Point =
  x_pt :: real
  y_pt :: real

record Transform =
  scale :: real
  offset :: Point

datatype ElementType = pencil | eraser | line | arrow | rectangle | circle | text_el

record CanvasElement =
  id_el :: string
  type_el :: ElementType
  x_el :: real
  y_el :: real
  endX :: "real option"
  endY :: "real option"
  points :: "Point list option"
  text_of :: "jsstring option"
  color_el :: string
  size_el :: real
  fontFamily :: "string option"
  fontSize :: "real option"

record Bounds =
  minX :: real
  minY :: real
  maxX :: real
  maxY :: real

section \<open>Geometry\<close>

definition screenToWorld :: "real \<Rightarrow> real \<Rightarrow> real \<Rightarrow> Point \<Rightarrow> Point" where
  "screenToWorld screenX screenY sc off =
     \<lparr>x_pt = (screenX - x_pt off) / sc, y_pt = (screenY - y_pt off) / sc\<rparr>"

definition worldToScreen :: "real \<Rightarrow> real \<Rightarrow> real \<Rightarrow> Point \<Rightarrow> Point" where
  "worldToScreen worldX worldY sc off =
     \<lparr>x_pt = worldX * sc + x_pt off, y_pt = worldY * sc + y_pt off\<rparr>"

text \<open>\<open>element.fontSize || 16\<close>: an absent or zero font size counts as 16.\<close>

definition fontSizeOr16 :: "CanvasElement \<Rightarrow> real" where
  "fontSizeOr16 element =
     (case fontSize element of None \<Rightarrow> 16 | Some v \<Rightarrow> if v = 0 then 16 else v)"

text \<open>Truthiness of \<open>element.text\<close>: present and not the empty string.\<close>

definition hasText :: "CanvasElement \<Rightarrow> bool" where
  "hasText element = (case text_of element of None \<Rightarrow> False | Some t \<Rightarrow> t \<noteq> [])"

definition textLength :: "CanvasElement \<Rightarrow> nat" where
  "textLength element = (case text_of element of None \<Rightarrow> 0 | Some t \<Rightarrow> length t)"

definition isPath :: "CanvasElement \<Rightarrow> bool" where
  "isPath element \<longleftrightarrow> type_el element = pencil \<or> type_el element = eraser"

text \<open>One step of the loop over the points of a stroke in \<open>getElementBounds\<close>.\<close>

definition growBounds :: "Bounds \<Rightarrow> Point \<Rightarrow> Bounds" where
  "growBounds b point =
     \<lparr>minX = min (minX b) (x_pt point), minY = min (minY b) (y_pt point),
      maxX = max (maxX b) (x_pt point), maxY = max (maxY b) (y_pt point)\<rparr>"

definition getElementBounds :: "CanvasElement \<Rightarrow> Bounds" where
  "getElementBounds element =
     (case (if isPath element then points element else None) of
        Some (p0 # ps) \<Rightarrow>
          foldl growBounds
            \<lparr>minX = x_pt p0, minY = y_pt p0, maxX = x_pt p0, maxY = y_pt p0\<rparr> (p0 # ps)
      | _ \<Rightarrow>
         (case (endX element, endY element) of
            (Some ex, Some ey) \<Rightarrow>
              \<lparr>minX = min (x_el element) ex, minY = min (y_el element) ey,
               maxX = max (x_el element) ex, maxY = max (y_el element) ey\<rparr>
          | _ \<Rightarrow>
             if type_el element = text_el \<and> hasText element then
               \<lparr>minX = x_el element, minY = y_el element - fontSizeOr16 element,
                maxX = x_el element + (real (textLength element) * fontSizeOr16 element) * 0.6,
                maxY = y_el element\<rparr>
             else
               \<lparr>minX = x_el element, minY = y_el element,
                maxX = x_el element, maxY = y_el element\<rparr>))"

definition pointToLineDistance ::
  "real \<Rightarrow> real \<Rightarrow> real \<Rightarrow> real \<Rightarrow> real \<Rightarrow> real \<Rightarrow> real" where
  "pointToLineDistance px py x1 y1 x2 y2 =
     (let A = px - x1; B = py - y1; C = x2 - x1; D = y2 - y1;
          dot = A * C + B * D;
          lenSq = C * C + D * D;
          param = (if lenSq \<noteq> 0 then dot / lenSq else - 1);
          xx = (if param < 0 then x1 else if param > 1 then x2 else x1 + param * C);
          yy = (if param < 0 then y1 else if param > 1 then y2 else y1 + param * D);
          dx = px - xx; dy = py - yy
      in sqrt (dx * dx + dy * dy))"

text \<open>
  The coarse rejection at the head of the loop body of \<open>getElementAtPosition\<close>: the
  element is skipped (\<open>continue\<close>) when the point is outside its bounding box widened
  by the threshold.
\<close>

definition outsideBounds :: "real \<Rightarrow> real \<Rightarrow> Bounds \<Rightarrow> real \<Rightarrow> bool" where
  "outsideBounds worldX worldY bounds hitThreshold \<longleftrightarrow>
     worldX < minX bounds - hitThreshold \<or> worldX > maxX bounds + hitThreshold \<or>
     worldY < minY bounds - hitThreshold \<or> worldY > maxY bounds + hitThreshold"

definition insideBounds :: "real \<Rightarrow> real \<Rightarrow> Bounds \<Rightarrow> bool" where
  "insideBounds worldX worldY bounds \<longleftrightarrow>
     worldX \<ge> minX bounds \<and> worldX \<le> maxX bounds \<and>
     worldY \<ge> minY bounds \<and> worldY \<le> maxY bounds"

definition hasEnd :: "CanvasElement \<Rightarrow> bool" where
  "hasEnd element \<longleftrightarrow> endX element \<noteq> None \<and> endY element \<noteq> None"

text \<open>
  The detailed, per-type test of \<open>getElementAtPosition\<close>: the \<open>if\<close>/\<open>else if\<close> chain
  after the rejection test, true when one of its branches returns the element.
\<close>

definition detailedHit :: "real \<Rightarrow> real \<Rightarrow> CanvasElement \<Rightarrow> real \<Rightarrow> bool" where
  "detailedHit worldX worldY element hitThreshold =
     (if isPath element \<and> points element \<noteq> None then
        list_ex (\<lambda>point. sqrt ((worldX - x_pt point)\<^sup>2 + (worldY - y_pt point)\<^sup>2) \<le> hitThreshold)
          (the (points element))
      else if type_el element = line \<and> hasEnd element then
        pointToLineDistance worldX worldY (x_el element) (y_el element)
          (the (endX element)) (the (endY element)) \<le> hitThreshold
      else if type_el element = arrow \<and> hasEnd element then
        pointToLineDistance worldX worldY (x_el element) (y_el element)
          (the (endX element)) (the (endY element)) \<le> hitThreshold
      else if type_el element = rectangle \<and> hasEnd element then
        insideBounds worldX worldY (getElementBounds element)
      else if type_el element = circle \<and> hasEnd element then
        (let centerX = (x_el element + the (endX element)) / 2;
             centerY = (y_el element + the (endY element)) / 2;
             radiusX = \<bar>the (endX element) - x_el element\<bar> / 2;
             radiusY = \<bar>the (endY element) - y_el element\<bar> / 2;
             radius = max radiusX radiusY;
             dist = sqrt ((worldX - centerX)\<^sup>2 + (worldY - centerY)\<^sup>2)
         in \<bar>dist - radius\<bar> \<le> hitThreshold)
      else if type_el element = text_el \<and> hasText element then
        insideBounds worldX worldY (getElementBounds element)
      else False)"

text \<open>
  The loop \<open>for (let i = elements.length - 1; i >= 0; i--)\<close>: \<open>hitLoop \<dots> (Suc i)\<close>
  is the iteration at index \<open>i\<close>, \<open>hitLoop \<dots> 0\<close> is the exit of the loop, which
  returns \<open>null\<close>.
\<close>

fun hitLoop :: "real \<Rightarrow> real \<Rightarrow> CanvasElement list \<Rightarrow> real \<Rightarrow> nat \<Rightarrow> CanvasElement option" where
  "hitLoop worldX worldY els hitThreshold 0 = None"
| "hitLoop worldX worldY els hitThreshold (Suc i) =
     (let element = els ! i; bounds = getElementBounds element in
      if outsideBounds worldX worldY bounds hitThreshold
      then hitLoop worldX worldY els hitThreshold i
      else if detailedHit worldX worldY element hitThreshold then Some element
      else hitLoop worldX worldY els hitThreshold i)"

definition getElementAtPosition ::
  "real \<Rightarrow> real \<Rightarrow> CanvasElement list \<Rightarrow> real \<Rightarrow> CanvasElement option" where
  "getElementAtPosition worldX worldY els hitThreshold =
     hitLoop worldX worldY els hitThreshold (length els)"

text \<open>
  The element passes one iteration of the loop: it is not rejected by the bounding box
  and its detailed test returns it.
\<close>

definition hits :: "real \<Rightarrow> real \<Rightarrow> real \<Rightarrow> CanvasElement \<Rightarrow> bool" where
  "hits worldX worldY hitThreshold element \<longleftrightarrow>
     \<not> outsideBounds worldX worldY (getElementBounds element) hitThreshold \<and>
     detailedHit worldX worldY element hitThreshold"

section \<open>Strings\<close>

text \<open>
  \<open>String.prototype.trim\<close> removes the leading and trailing code units that are
  ECMAScript white space or line terminators: TAB, LF, VT, FF, CR, SPACE, NBSP, the
  Unicode space separators (U+1680, U+2000 to U+200A, U+202F, U+205F, U+3000), the line
  and paragraph separators U+2028 and U+2029, and U+FEFF.
\<close>

definition isWhiteSpace :: "16 word \<Rightarrow> bool" where
  "isWhiteSpace c \<longleftrightarrow>
     c = 0x9 \<or> c = 0xA \<or> c = 0xB \<or> c = 0xC \<or> c = 0xD \<or> c = 0x20 \<or> c = 0xA0 \<or>
     c = 0x1680 \<or> (0x2000 \<le> c \<and> c \<le> 0x200A) \<or> c = 0x2028 \<or> c = 0x2029 \<or>
     c = 0x202F \<or> c = 0x205F \<or> c = 0x3000 \<or> c = 0xFEFF"

definition trim :: "jsstring \<Rightarrow> jsstring" where
  "trim s = rev (dropWhile isWhiteSpace (rev (dropWhile isWhiteSpace s)))"

section \<open>State of the component\<close>

datatype Tool =
  pen_tool | eraser_tool | pan_tool | line_tool | arrow_tool | rectangle_tool
  | circle_tool | text_tool | select_tool

record TextInputState =
  x_ti :: real
  y_ti :: real
  worldX_ti :: real
  worldY_ti :: real
  elementId :: "string option"

record DragStart =
  x_ds :: real
  y_ds :: real
  endX_ds :: "real option"
  endY_ds :: "real option"
  points_ds :: "Point list option"

text \<open>
  The refs and the state variables of the component, together with what it reads from
  its environment: the transform it receives as a prop (and replaces through
  \<open>onTransformChange\<close>), the static canvas (\<open>None\<close> while \<open>staticCanvasRef.current\<close>
  is null, else the \<open>left\<close> and \<open>top\<close> of its bounding rectangle) and
  \<open>window.devicePixelRatio\<close>. \<open>saveRequests\<close> counts the calls of
  \<open>debouncedSave\<close>, the only path to the persistent store. The scheduling of redraws
  and the drawing itself are not part of the model, and a state setter of the component
  takes effect at once.
\<close>

record Whiteboard =
  elements :: "CanvasElement list"
  currentElement :: "CanvasElement option"
  history :: "CanvasElement list list"
  historyIndex :: nat
  redoStack :: "CanvasElement list list"
  historyInitialized :: bool
  undoCount :: nat
  redoCount :: nat
  tool :: Tool
  color :: string
  size_brush :: real
  selectedElementId :: "string option"
  textInputState :: "TextInputState option"
  isDrawing :: bool
  isPanning :: bool
  isDragging :: bool
  dragStartPos :: Point
  dragElementStartPos :: DragStart
  lastMousePos :: Point
  transform :: Transform
  canvasRect :: "(real \<times> real) option"
  devicePixelRatio :: real
  saveRequests :: nat

text \<open>\<open>window.devicePixelRatio || 1\<close>.\<close>

definition dpr :: "Whiteboard \<Rightarrow> real" where
  "dpr s = (if devicePixelRatio s = 0 then 1 else devicePixelRatio s)"

definition debouncedSave :: "Whiteboard \<Rightarrow> Whiteboard" where
  "debouncedSave s = s\<lparr>saveRequests := Suc (saveRequests s)\<rparr>"

text \<open>The values of the refs and state variables when the component is created.\<close>

definition newWhiteboard :: "Transform \<Rightarrow> (real \<times> real) option \<Rightarrow> real \<Rightarrow> Whiteboard" where
  "newWhiteboard tr rect ratio =
     \<lparr>elements = [], currentElement = None, history = [], historyIndex = 0,
      redoStack = [], historyInitialized = False, undoCount = 0, redoCount = 0,
      tool = pen_tool, color = ''#000000'', size_brush = 3, selectedElementId = None,
      textInputState = None, isDrawing = False, isPanning = False, isDragging = False,
      dragStartPos = \<lparr>x_pt = 0, y_pt = 0\<rparr>,
      dragElementStartPos =
        \<lparr>x_ds = 0, y_ds = 0, endX_ds = None, endY_ds = None, points_ds = None\<rparr>,
      lastMousePos = \<lparr>x_pt = 0, y_pt = 0\<rparr>,
      transform = tr, canvasRect = rect, devicePixelRatio = ratio, saveRequests = 0\<rparr>"

text \<open>The effect "Initialize history with empty state".\<close>

definition initializeHistory :: "Whiteboard \<Rightarrow> Whiteboard" where
  "initializeHistory s =
     (if \<not> historyInitialized s
      then s\<lparr>history := [elements s], historyIndex := 1, historyInitialized := True\<rparr>
      else s)"

text \<open>
  The effect that loads the stored document: \<open>saved\<close> is the parsed array, or
  \<open>None\<close> when nothing usable is stored. It runs after \<open>initializeHistory\<close>.
\<close>

definition loadStored :: "CanvasElement list option \<Rightarrow> Whiteboard \<Rightarrow> Whiteboard" where
  "loadStored saved s = (case saved of None \<Rightarrow> s | Some parsed \<Rightarrow> s\<lparr>elements := parsed\<rparr>)"

section \<open>History\<close>

definition saveToHistory :: "Whiteboard \<Rightarrow> Whiteboard" where
  "saveToHistory s =
     (let snapshot = elements s;
          h0 = (if historyIndex s < length (history s)
                then take (historyIndex s) (history s) else history s);
          h1 = h0 @ [snapshot];
          i1 = length h1;
          h2 = (if length h1 > 50 then tl h1 else h1);
          i2 = (if length h1 > 50 then i1 - 1 else i1)
      in s\<lparr>history := h2, historyIndex := i2, redoStack := [], redoCount := 0,
           undoCount := (if length h2 > 1 then length h2 - 1 else 0)\<rparr>)"

text \<open>
  \<open>historyRef.current[historyIndexRef.current - 1]\<close> read after the decrement: the
  index \<open>-1\<close> and an index past the end give \<open>undefined\<close>. A snapshot is an array,
  so it is truthy whenever it is there.
\<close>

definition snapshotAt :: "CanvasElement list list \<Rightarrow> nat \<Rightarrow> CanvasElement list option" where
  "snapshotAt h i = (if 0 < i \<and> i - 1 < length h then Some (h ! (i - 1)) else None)"

definition handleUndo :: "Whiteboard \<Rightarrow> Whiteboard" where
  "handleUndo s =
     (if historyIndex s > 0 then
        (let s1 = s\<lparr>redoStack := redoStack s @ [elements s],
                    redoCount := length (redoStack s) + 1,
                    historyIndex := historyIndex s - 1\<rparr>
         in case snapshotAt (history s1) (historyIndex s1) of
              Some previousSnapshot \<Rightarrow>
                debouncedSave
                  (s1\<lparr>elements := previousSnapshot,
                      undoCount := (if historyIndex s1 > 0 then historyIndex s1 - 1 else 0)\<rparr>)
            | None \<Rightarrow> s1)
      else s)"

definition handleRedo :: "Whiteboard \<Rightarrow> Whiteboard" where
  "handleRedo s =
     (if length (redoStack s) > 0 then
        (let nextSnapshot = last (redoStack s);
             s1 = s\<lparr>redoStack := butlast (redoStack s),
                    redoCount := length (redoStack s) - 1\<rparr>;
             h = history s1 @ [nextSnapshot]
         in debouncedSave
              (s1\<lparr>history := h, historyIndex := length h, elements := nextSnapshot,
                  undoCount := (if length h > 1 then length h - 1 else 0)\<rparr>))
      else s)"

definition clearCanvas :: "Whiteboard \<Rightarrow> Whiteboard" where
  "clearCanvas s = s\<lparr>elements := [], undoCount := 0\<rparr>"

text \<open>\<open>if (selectedElementId)\<close>: the id is there and is not the empty string.\<close>

definition hasSelection :: "Whiteboard \<Rightarrow> bool" where
  "hasSelection s = (case selectedElementId s of None \<Rightarrow> False | Some i \<Rightarrow> i \<noteq> [])"

definition handleDelete :: "Whiteboard \<Rightarrow> Whiteboard" where
  "handleDelete s =
     (if hasSelection s then
        (let s1 = saveToHistory s
         in debouncedSave
              (s1\<lparr>elements := filter (\<lambda>el. Some (id_el el) \<noteq> selectedElementId s) (elements s1),
                  selectedElementId := None\<rparr>))
      else s)"

section \<open>Pointer, text and wheel handlers\<close>

text \<open>
  A pointer event is a mouse event (it has a \<open>button\<close>) or a touch event; for a touch
  event the client position is that of \<open>touches[0]\<close>.
\<close>

datatype PointerEvent =
  MouseEvent (button: nat) (shiftKey: bool) (clientX: real) (clientY: real)
  | TouchEvent (clientX: real) (clientY: real)

definition isMouseEvent :: "PointerEvent \<Rightarrow> bool" where
  "isMouseEvent e = (case e of MouseEvent b sh cx cy \<Rightarrow> True | TouchEvent cx cy \<Rightarrow> False)"

definition getPointerPos :: "PointerEvent \<Rightarrow> Whiteboard \<Rightarrow> Point" where
  "getPointerPos e s =
     (case canvasRect s of
        None \<Rightarrow> \<lparr>x_pt = 0, y_pt = 0\<rparr>
      | Some (rectLeft, rectTop) \<Rightarrow>
          \<lparr>x_pt = (clientX e - rectLeft) * dpr s, y_pt = (clientY e - rectTop) * dpr s\<rparr>)"

definition worldPosOf :: "Point \<Rightarrow> Whiteboard \<Rightarrow> Point" where
  "worldPosOf pos s =
     screenToWorld (x_pt pos) (y_pt pos) (scale (transform s)) (offset (transform s))"

text \<open>
  The in-progress element that \<open>handleStart\<close> creates; \<open>now\<close> is
  \<open>Date.now().toString()\<close>.
\<close>

definition newPathElement :: "string \<Rightarrow> Point \<Rightarrow> Whiteboard \<Rightarrow> CanvasElement" where
  "newPathElement now worldPos s =
     \<lparr>id_el = now, type_el = (if tool s = eraser_tool then eraser else pencil),
      x_el = x_pt worldPos, y_el = y_pt worldPos, endX = None, endY = None,
      points = Some [worldPos], text_of = None,
      color_el = (if tool s = eraser_tool then ''#FFFFFF'' else color s),
      size_el = size_brush s, fontFamily = None, fontSize = None\<rparr>"

definition shapeType :: "Tool \<Rightarrow> ElementType" where
  "shapeType t =
     (if t = line_tool then line else if t = arrow_tool then arrow
      else if t = rectangle_tool then rectangle else circle)"

definition newShapeElement :: "string \<Rightarrow> Point \<Rightarrow> Whiteboard \<Rightarrow> CanvasElement" where
  "newShapeElement now worldPos s =
     \<lparr>id_el = now, type_el = shapeType (tool s),
      x_el = x_pt worldPos, y_el = y_pt worldPos,
      endX = Some (x_pt worldPos), endY = Some (y_pt worldPos),
      points = None, text_of = None, color_el = color s,
      size_el = size_brush s, fontFamily = None, fontSize = None\<rparr>"

definition isShapeTool :: "Tool \<Rightarrow> bool" where
  "isShapeTool t \<longleftrightarrow> t = line_tool \<or> t = arrow_tool \<or> t = rectangle_tool \<or> t = circle_tool"

definition captureDragStart :: "CanvasElement \<Rightarrow> DragStart" where
  "captureDragStart element =
     \<lparr>x_ds = x_el element, y_ds = y_el element, endX_ds = endX element,
      endY_ds = endY element, points_ds = points element\<rparr>"

definition openTextInput :: "Point \<Rightarrow> Whiteboard \<Rightarrow> Whiteboard" where
  "openTextInput worldPos s =
     (case canvasRect s of
        None \<Rightarrow> s
      | Some (rectLeft, rectTop) \<Rightarrow>
          (let screenPos = worldToScreen (x_pt worldPos) (y_pt worldPos)
                             (scale (transform s)) (offset (transform s))
           in s\<lparr>textInputState :=
                  Some \<lparr>x_ti = rectLeft + x_pt screenPos / dpr s,
                        y_ti = rectTop + y_pt screenPos / dpr s,
                        worldX_ti = x_pt worldPos, worldY_ti = y_pt worldPos,
                        elementId = None\<rparr>\<rparr>))"

definition beginDrawing :: "string \<Rightarrow> Point \<Rightarrow> Whiteboard \<Rightarrow> Whiteboard" where
  "beginDrawing now worldPos s =
     (let s1 = s\<lparr>isDrawing := True\<rparr>
      in if tool s = pen_tool \<or> tool s = eraser_tool
         then s1\<lparr>currentElement := Some (newPathElement now worldPos s)\<rparr>
         else if isShapeTool (tool s)
         then s1\<lparr>currentElement := Some (newShapeElement now worldPos s)\<rparr>
         else s1)"

definition handleStart :: "PointerEvent \<Rightarrow> string \<Rightarrow> Whiteboard \<Rightarrow> Whiteboard" where
  "handleStart e now s =
     (let isMiddleClick = isMouseEvent e \<and> button e = 1;
          isSpaceClick = isMouseEvent e \<and> shiftKey e
      in if tool s = pan_tool \<or> isMiddleClick \<or> isSpaceClick
         then s\<lparr>isPanning := True, lastMousePos := getPointerPos e s\<rparr>
         else if isMouseEvent e \<and> button e \<noteq> 0 then s
         else
          (let pos = getPointerPos e s;
               worldPos = worldPosOf pos s;
               hitElement =
                 (if tool s = select_tool
                  then getElementAtPosition (x_pt worldPos) (y_pt worldPos) (elements s)
                         (5 / scale (transform s))
                  else None)
           in case hitElement of
                Some hit \<Rightarrow>
                  (let s1 = s\<lparr>selectedElementId := Some (id_el hit), isDragging := True,
                              dragStartPos := worldPos\<rparr>
                   in case find (\<lambda>el. id_el el = id_el hit) (elements s) of
                        Some element \<Rightarrow> s1\<lparr>dragElementStartPos := captureDragStart element\<rparr>
                      | None \<Rightarrow> s1)
              | None \<Rightarrow>
                  (let s1 = (if tool s = select_tool then s\<lparr>selectedElementId := None\<rparr> else s)
                   in if tool s = text_tool then openTextInput worldPos s1
                      else beginDrawing now worldPos s1)))"

text \<open>
  The first element that satisfies \<open>P\<close>, as \<open>Array.prototype.find\<close> returns it, is
  updated in place.
\<close>

fun updateFirst :: "('a \<Rightarrow> bool) \<Rightarrow> ('a \<Rightarrow> 'a) \<Rightarrow> 'a list \<Rightarrow> 'a list" where
  "updateFirst P f [] = []"
| "updateFirst P f (v # vs) = (if P v then f v # vs else v # updateFirst P f vs)"

text \<open>
  The move of the dragged element. Where the captured start has no end point although
  the element has one, the source computes \<open>undefined + delta\<close>; that value has no
  counterpart among the reals and is shown as an absent end point.
\<close>

definition dragTo :: "DragStart \<Rightarrow> real \<Rightarrow> real \<Rightarrow> CanvasElement \<Rightarrow> CanvasElement" where
  "dragTo start deltaX deltaY element =
     (let e1 = element\<lparr>x_el := x_ds start + deltaX, y_el := y_ds start + deltaY\<rparr>;
          e2 = (if hasEnd element
                then e1\<lparr>endX := map_option (\<lambda>v. v + deltaX) (endX_ds start),
                        endY := map_option (\<lambda>v. v + deltaY) (endY_ds start)\<rparr>
                else e1)
      in case (points element, points_ds start) of
           (Some ps, Some ps0) \<Rightarrow>
             e2\<lparr>points := Some (map (\<lambda>p. \<lparr>x_pt = x_pt p + deltaX, y_pt = y_pt p + deltaY\<rparr>) ps0)\<rparr>
         | _ \<Rightarrow> e2)"

definition handleMove :: "PointerEvent \<Rightarrow> Whiteboard \<Rightarrow> Whiteboard" where
  "handleMove e s =
     (let pos = getPointerPos e s
      in if isPanning s then
           (let dx = x_pt pos - x_pt (lastMousePos s);
                dy = y_pt pos - y_pt (lastMousePos s);
                off = offset (transform s)
            in s\<lparr>transform := \<lparr>scale = scale (transform s),
                                offset = \<lparr>x_pt = x_pt off + dx, y_pt = y_pt off + dy\<rparr>\<rparr>,
                 lastMousePos := pos\<rparr>)
         else if isDragging s \<and> hasSelection s then
           (let worldPos = worldPosOf pos s;
                deltaX = x_pt worldPos - x_pt (dragStartPos s);
                deltaY = y_pt worldPos - y_pt (dragStartPos s)
            in s\<lparr>elements :=
                   updateFirst (\<lambda>el. Some (id_el el) = selectedElementId s)
                     (dragTo (dragElementStartPos s) deltaX deltaY) (elements s)\<rparr>)
         else
           (case (if isDrawing s then currentElement s else None) of
              None \<Rightarrow> s
            | Some cur \<Rightarrow>
                (let worldPos = worldPosOf pos s
                 in if type_el cur = pencil \<and> points cur \<noteq> None
                    then s\<lparr>currentElement :=
                            Some (cur\<lparr>points := Some (the (points cur) @ [worldPos])\<rparr>)\<rparr>
                    else if hasEnd cur
                    then s\<lparr>currentElement :=
                            Some (cur\<lparr>endX := Some (x_pt worldPos), endY := Some (y_pt worldPos)\<rparr>)\<rparr>
                    else s)))"

text \<open>The validation of the in-progress element in \<open>handleEnd\<close>.\<close>

definition isValid :: "CanvasElement \<Rightarrow> bool" where
  "isValid cur =
     (if isPath cur \<and> (case points cur of None \<Rightarrow> False | Some ps \<Rightarrow> length ps > 1) then True
      else if hasEnd cur then
        (let dx = the (endX cur) - x_el cur; dy = the (endY cur) - y_el cur
         in \<bar>dx\<bar> > 1 \<or> \<bar>dy\<bar> > 1)
      else False)"

definition handleEnd :: "Whiteboard \<Rightarrow> Whiteboard" where
  "handleEnd s =
     (if isPanning s then s\<lparr>isPanning := False\<rparr>
      else if isDragging s then debouncedSave (saveToHistory (s\<lparr>isDragging := False\<rparr>))
      else
        (case (if isDrawing s then currentElement s else None) of
           None \<Rightarrow> s
         | Some cur \<Rightarrow>
             (let s1 = s\<lparr>isDrawing := False\<rparr>;
                  s2 = (if isValid cur
                        then (let s3 = saveToHistory s1
                              in debouncedSave (s3\<lparr>elements := elements s3 @ [cur]\<rparr>))
                        else s1)
              in s2\<lparr>currentElement := None\<rparr>)))"

definition handleTextCommit :: "jsstring \<Rightarrow> string \<Rightarrow> Whiteboard \<Rightarrow> Whiteboard" where
  "handleTextCommit txt now s =
     (case textInputState s of
        None \<Rightarrow> s\<lparr>textInputState := None\<rparr>
      | Some ti \<Rightarrow>
          if trim txt = [] then s\<lparr>textInputState := None\<rparr>
          else if canvasRect s = None then s\<lparr>textInputState := None\<rparr>
          else
            (let newElement =
                   \<lparr>id_el = now, type_el = text_el,
                    x_el = worldX_ti ti, y_el = worldY_ti ti, endX = None, endY = None,
                    points = None, text_of = Some (trim txt), color_el = color s,
                    size_el = size_brush s, fontFamily = Some ''Arial'', fontSize = Some 16\<rparr>;
                 s1 = saveToHistory s;
                 s2 = debouncedSave (s1\<lparr>elements := elements s1 @ [newElement]\<rparr>)
             in s2\<lparr>textInputState := None\<rparr>))"

record WheelEvent =
  ctrlKey :: bool
  deltaX :: real
  deltaY :: real
  clientX_w :: real
  clientY_w :: real

text \<open>The position of the pointer of a wheel event in canvas coordinates.\<close>

definition wheelPos :: "WheelEvent \<Rightarrow> Whiteboard \<Rightarrow> Point" where
  "wheelPos e s =
     (case canvasRect s of
        None \<Rightarrow> \<lparr>x_pt = 0, y_pt = 0\<rparr>
      | Some (rectLeft, rectTop) \<Rightarrow>
          \<lparr>x_pt = (clientX_w e - rectLeft) * dpr s, y_pt = (clientY_w e - rectTop) * dpr s\<rparr>)"

definition handleWheel :: "WheelEvent \<Rightarrow> Whiteboard \<Rightarrow> Whiteboard" where
  "handleWheel e s =
     (case canvasRect s of
        None \<Rightarrow> s
      | Some (rectLeft, rectTop) \<Rightarrow>
          (let sc = scale (transform s); off = offset (transform s)
           in if ctrlKey e then
                (let zoomSensitivity = 0.001;
                     delta = - deltaY e * zoomSensitivity;
                     newScale = min (max 0.1 (sc + delta)) 10;
                     x = clientX_w e - rectLeft;
                     y = clientY_w e - rectTop;
                     canvasX = x * dpr s;
                     canvasY = y * dpr s;
                     worldX = (canvasX - x_pt off) / sc;
                     worldY = (canvasY - y_pt off) / sc;
                     newOffsetX = canvasX - worldX * newScale;
                     newOffsetY = canvasY - worldY * newScale
                 in s\<lparr>transform :=
                        \<lparr>scale = newScale, offset = \<lparr>x_pt = newOffsetX, y_pt = newOffsetY\<rparr>\<rparr>\<rparr>)
              else
                (let newOffsetX = x_pt off - deltaX e * dpr s;
                     newOffsetY = y_pt off - deltaY e * dpr s
                 in s\<lparr>transform :=
                        \<lparr>scale = sc, offset = \<lparr>x_pt = newOffsetX, y_pt = newOffsetY\<rparr>\<rparr>\<rparr>)))"

section \<open>Committed mutations\<close>

text \<open>The state setter behind the tool buttons of the toolbar.\<close>

definition setTool :: "Tool \<Rightarrow> Whiteboard \<Rightarrow> Whiteboard" where
  "setTool t s = s\<lparr>tool := t\<rparr>"

text \<open>
  What \<open>handleStart\<close> finds under the pointer when the select tool is active: the call
  of \<open>getElementAtPosition\<close> at the world position of the event, with the threshold
  \<open>5 / transform.scale\<close>.
\<close>

definition pointerHit :: "PointerEvent \<Rightarrow> Whiteboard \<Rightarrow> CanvasElement option" where
  "pointerHit e s =
     (let worldPos = worldPosOf (getPointerPos e s) s
      in getElementAtPosition (x_pt worldPos) (y_pt worldPos) (elements s)
           (5 / scale (transform s)))"

text \<open>
  A committed mutation of the document, as the handlers perform it.
  \<^item> \<open>Draw el\<close>: the pointer is released over a drawing in progress, that is
    \<open>handleEnd\<close> in the state that \<open>handleStart\<close> and \<open>handleMove\<close> leave, with
    the in-progress element \<open>el\<close>.
  \<^item> \<open>EnterText\<close>: the open text input is committed by \<open>handleTextCommit\<close>.
  \<^item> \<open>Drag x1 y1 x2 y2\<close>: with the select tool the left button goes down at the
    client position \<open>(x1, y1)\<close>, the pointer moves to \<open>(x2, y2)\<close> and the button is
    released: \<open>handleStart\<close>, \<open>handleMove\<close>, \<open>handleEnd\<close>. The time stamp that
    \<open>handleStart\<close> takes is not read with the select tool. The element under the
    pointer becomes the selection, and stays it after the drag.
  \<^item> \<open>Delete\<close>: the Delete key, that is \<open>handleDelete\<close>, which removes the
    selected element. A selection comes from a drag only.
  \<open>clearCanvas\<close> is not among them: it is looked at on its own below.
\<close>

datatype Mutation =
  Draw CanvasElement
  | EnterText jsstring real real string
  | Drag real real real real
  | Delete

fun commit :: "Mutation \<Rightarrow> Whiteboard \<Rightarrow> Whiteboard" where
  "commit (Draw el) s =
     handleEnd (s\<lparr>isPanning := False, isDragging := False, isDrawing := True,
                  currentElement := Some el\<rparr>)"
| "commit (EnterText txt wx wy now) s =
     handleTextCommit txt now
       (s\<lparr>textInputState :=
            Some \<lparr>x_ti = 0, y_ti = 0, worldX_ti = wx, worldY_ti = wy, elementId = None\<rparr>\<rparr>)"
| "commit (Drag x1 y1 x2 y2) s =
     handleEnd
       (handleMove (MouseEvent 0 False x2 y2)
          (handleStart (MouseEvent 0 False x1 y1) [] (setTool select_tool s)))"
| "commit Delete s = handleDelete s"

text \<open>
  The mutation passes the guards of its handlers in the state it meets: the drawn
  element is valid; the entered text is not blank and the canvas is mounted; no pan is
  under way and the pointer goes down on an element; an element is selected.
\<close>

fun commits :: "Mutation \<Rightarrow> Whiteboard \<Rightarrow> bool" where
  "commits (Draw el) s = isValid el"
| "commits (EnterText txt wx wy now) s = (trim txt \<noteq> [] \<and> canvasRect s \<noteq> None)"
| "commits (Drag x1 y1 x2 y2) s =
     (\<not> isPanning s \<and> pointerHit (MouseEvent 0 False x1 y1) s \<noteq> None)"
| "commits Delete s = hasSelection s"

fun adds :: "Mutation \<Rightarrow> bool" where
  "adds (Draw el) = True"
| "adds (EnterText txt wx wy now) = True"
| "adds (Drag x1 y1 x2 y2) = False"
| "adds Delete = False"

fun run :: "Mutation list \<Rightarrow> Whiteboard \<Rightarrow> Whiteboard" where
  "run [] s = s"
| "run (m # ms) s = run ms (commit m s)"

text \<open>Every mutation of the run passes its guards in the state the run has reached.\<close>

fun allCommit :: "Whiteboard \<Rightarrow> Mutation list \<Rightarrow> bool" where
  "allCommit s [] = True"
| "allCommit s (m # ms) = (commits m s \<and> allCommit (commit m s) ms)"

text \<open>
  The document that the mutation hands to \<open>saveToHistory\<close>: the document before the
  mutation, but for a drag the document after it, since \<open>handleMove\<close> has moved the
  element by the time \<open>handleEnd\<close> takes the snapshot.
\<close>

fun snapshotOf :: "Mutation \<Rightarrow> Whiteboard \<Rightarrow> CanvasElement list" where
  "snapshotOf (Drag x1 y1 x2 y2) s = elements (commit (Drag x1 y1 x2 y2) s)"
| "snapshotOf m s = elements s"

text \<open>The snapshots that the mutations of a run take, in their order.\<close>

fun snapshots :: "Whiteboard \<Rightarrow> Mutation list \<Rightarrow> CanvasElement list list" where
  "snapshots s [] = []"
| "snapshots s (m # ms) = snapshotOf m s # snapshots (commit m s) ms"

text \<open>
  The component after its first effects, before any stored document is loaded: an empty
  document, a history that holds the one initial snapshot, index 1, and no selection.
\<close>

definition fresh :: "Whiteboard \<Rightarrow> bool" where
  "fresh s \<longleftrightarrow>
     elements s = [] \<and> history s = [[]] \<and> historyIndex s = 1 \<and> redoStack s = [] \<and>
     selectedElementId s = None"

definition mounted :: Whiteboard where
  "mounted =
     initializeHistory
       (newWhiteboard \<lparr>scale = 1, offset = \<lparr>x_pt = 0, y_pt = 0\<rparr>\<rparr> (Some (0, 0)) 1)"

text \<open>
  What \<open>saveToHistory\<close> leaves in \<open>historyRef\<close> and \<open>historyIndexRef\<close>, as a
  function of the three values it reads: the document, the history and the index.
\<close>

definition pushed ::
  "CanvasElement list \<Rightarrow> CanvasElement list list \<Rightarrow> nat \<Rightarrow> CanvasElement list list \<times> nat" where
  "pushed doc h i =
     (let h1 = (if i < length h then take i h else h) @ [doc]
      in if length h1 > 50 then (tl h1, length h1 - 1) else (h1, length h1))"

text \<open>
  The view of the freshly mounted component: no pan is under way, the canvas sits at the
  origin of the client area, the pixel ratio is 1 and the transform is the identity, so
  that client, canvas and world coordinates agree.
\<close>

definition atOrigin :: "Whiteboard \<Rightarrow> bool" where
  "atOrigin s \<longleftrightarrow>
     \<not> isPanning s \<and> canvasRect s = Some (0, 0) \<and> devicePixelRatio s = 1 \<and>
     transform s = \<lparr>scale = 1, offset = \<lparr>x_pt = 0, y_pt = 0\<rparr>\<rparr>"

text \<open>A sequence of pointer-move events.\<close>

fun moves :: "PointerEvent list \<Rightarrow> Whiteboard \<Rightarrow> Whiteboard" where
  "moves [] s = s"
| "moves (e # es) s = moves es (handleMove e s)"

text \<open>
  The idle state of the pointer handlers: no pan, drag or drawing is under way and no
  in-progress element is held.
\<close>

definition idle :: "Whiteboard \<Rightarrow> bool" where
  "idle s \<longleftrightarrow> \<not> isPanning s \<and> \<not> isDragging s \<and> \<not> isDrawing s \<and> currentElement s = None"

section \<open>Example values\<close>

definition lineA :: CanvasElement where
  "lineA =
     \<lparr>id_el = ''1'', type_el = line, x_el = 0, y_el = 0, endX = Some 10, endY = Some 10,
      points = None, text_of = None, color_el = ''#000000'', size_el = 3,
      fontFamily = None, fontSize = None\<rparr>"

definition rectA :: CanvasElement where
  "rectA =
     \<lparr>id_el = ''2'', type_el = rectangle, x_el = 0, y_el = 0, endX = Some 20, endY = Some 20,
      points = None, text_of = None, color_el = ''#000000'', size_el = 3,
      fontFamily = None, fontSize = None\<rparr>"

definition circleA :: CanvasElement where
  "circleA =
     \<lparr>id_el = ''3'', type_el = circle, x_el = 0, y_el = 0, endX = Some 20, endY = Some 2,
      points = None, text_of = None, color_el = ''#000000'', size_el = 3,
      fontFamily = None, fontSize = None\<rparr>"

text \<open>The document after a line was drawn, and after a rectangle was drawn next.\<close>

definition afterLine :: Whiteboard where
  "afterLine = commit (Draw lineA) mounted"

definition afterRect :: Whiteboard where
  "afterRect = commit (Draw rectA) afterLine"

definition lineMoved :: CanvasElement where
  "lineMoved = lineA\<lparr>x_el := 10, y_el := 0, endX := Some 20, endY := Some 10\<rparr>"

text \<open>
  The identifier of a new element is the time of its pointer-down event in milliseconds,
  as a decimal string. The examples use the times 1, 11, 111 and so on. \<open>lineAt i\<close>
  is the line of \<open>lineA\<close> with the identifier \<open>i\<close>.
\<close>

definition stamp :: "nat \<Rightarrow> string" where
  "stamp n = replicate (Suc n) CHR ''1''"

definition lineAt :: "string \<Rightarrow> CanvasElement" where
  "lineAt i = lineA\<lparr>id_el := i\<rparr>"

text \<open>
  A line is drawn, dragged by (10, 0) with the select tool and deleted with the Delete
  key; in the longer round it is dragged back before it is deleted.
\<close>

definition roundOfThree :: "string \<Rightarrow> Mutation list" where
  "roundOfThree i = [Draw (lineAt i), Drag 5 5 15 5, Delete]"

definition roundOfFour :: "string \<Rightarrow> Mutation list" where
  "roundOfFour i = [Draw (lineAt i), Drag 5 5 15 5, Drag 15 5 5 5, Delete]"

definition rounds :: "nat list \<Rightarrow> Mutation list" where
  "rounds ns = concat (map (\<lambda>n. roundOfThree (stamp n)) ns)"

definition tenMutations :: "Mutation list" where
  "tenMutations = roundOfThree (stamp 0) @ roundOfThree (stamp 1) @ roundOfFour (stamp 2)"

definition fiftyMutations :: "Mutation list" where
  "fiftyMutations = rounds [3..<19] @ [Draw (lineAt (stamp 19)), Drag 5 5 15 5]"

definition sixtyMutations :: "Mutation list" where
  "sixtyMutations = tenMutations @ fiftyMutations"

text \<open>Sixty lines, drawn one after the other.\<close>

definition sixtyLines :: "Mutation list" where
  "sixtyLines = map (\<lambda>n. Draw (lineAt (stamp n))) [0..<60]"

definition zoomIn :: WheelEvent where
  "zoomIn = \<lparr>ctrlKey = True, deltaX = 0, deltaY = - 1000, clientX_w = 100, clientY_w = 100\<rparr>"

definition click :: PointerEvent where
  "click = MouseEvent 0 False 10 10"

definition textOpen :: Whiteboard where
  "textOpen = handleStart click ''1'' (mounted\<lparr>tool := text_tool\<rparr>)"

definition strokeA :: CanvasElement where
  "strokeA =
     \<lparr>id_el = ''4'', type_el = pencil, x_el = 0, y_el = 0, endX = None, endY = None,
      points = Some [\<lparr>x_pt = 0, y_pt = 0\<rparr>, \<lparr>x_pt = 10, y_pt = 10\<rparr>], text_of = None,
      color_el = ''#000000'', size_el = 3, fontFamily = None, fontSize = None\<rparr>"

definition rectReady :: Whiteboard where
  "rectReady = mounted\<lparr>tool := rectangle_tool\<rparr>"

definition rectStarted :: Whiteboard where
  "rectStarted = handleStart click ''1'' rectReady"

definition rectDrawn :: Whiteboard where
  "rectDrawn = handleMove (MouseEvent 0 False 60 70) rectStarted"

definition rectPoint :: CanvasElement where
  "rectPoint =
     \<lparr>id_el = ''1'', type_el = rectangle, x_el = 10, y_el = 10, endX = Some 10, endY = Some 10,
      points = None, text_of = None, color_el = ''#000000'', size_el = 3,
      fontFamily = None, fontSize = None\<rparr>"

definition rectBox :: CanvasElement where
  "rectBox = rectPoint\<lparr>endX := Some 60, endY := Some 70\<rparr>"

definition threeShapes :: "Mutation list" where
  "threeShapes = [Draw lineA, Draw rectA, Draw circleA]"

definition undone :: Whiteboard where
  "undone = handleUndo (run threeShapes mounted)"

definition eraserStarted :: Whiteboard where
  "eraserStarted = handleStart click ''1'' (mounted\<lparr>tool := eraser_tool\<rparr>)"

definition eraserMoved :: Whiteboard where
  "eraserMoved = handleMove (MouseEvent 0 False 60 70) eraserStarted"

definition penStarted :: Whiteboard where
  "penStarted = handleStart click ''1'' mounted"

definition penMoved :: Whiteboard where
  "penMoved = handleMove (MouseEvent 0 False 60 70) penStarted"

definition eraserDot :: CanvasElement where
  "eraserDot =
     \<lparr>id_el = ''1'', type_el = eraser, x_el = 10, y_el = 10, endX = None, endY = None,
      points = Some [\<lparr>x_pt = 10, y_pt = 10\<rparr>], text_of = None, color_el = ''#FFFFFF'',
      size_el = 3, fontFamily = None, fontSize = None\<rparr>"

definition penDot :: CanvasElement where
  "penDot =
     \<lparr>id_el = ''1'', type_el = pencil, x_el = 10, y_el = 10, endX = None, endY = None,
      points = Some [\<lparr>x_pt = 10, y_pt = 10\<rparr>], text_of = None, color_el = ''#000000'',
      size_el = 3, fontFamily = None, fontSize = None\<rparr>"

definition selectReady :: Whiteboard where
  "selectReady = (run [Draw lineA] mounted)\<lparr>tool := select_tool\<rparr>"

definition dragStarted :: Whiteboard where
  "dragStarted = handleStart (MouseEvent 0 False 5 5) ''9'' selectReady"

definition dragged :: Whiteboard where
  "dragged = handleMove (MouseEvent 0 False 15 5) dragStarted"

definition loaded :: Whiteboard where
  "loaded = loadStored (Some [lineA]) mounted"

definition loadedDrawn :: Whiteboard where
  "loadedDrawn = commit (Draw rectA) loaded"

section \<open>The history after a run of committed mutations\<close>

lemma save_elements [simp]: "elements (saveToHistory s) = elements s"
  and save_canvas [simp]: "canvasRect (saveToHistory s) = canvasRect s"
  and save_redo [simp]: "redoStack (saveToHistory s) = []"
  by (simp_all add: saveToHistory_def Let_def)

lemma save_pushed:
  "history (saveToHistory s) = fst (pushed (elements s) (history s) (historyIndex s))"
  "historyIndex (saveToHistory s) = snd (pushed (elements s) (history s) (historyIndex s))"
  by (simp_all add: saveToHistory_def pushed_def Let_def)

lemma start_fields:
  "elements (handleStart e now s) = elements s"
  "history (handleStart e now s) = history s"
  "historyIndex (handleStart e now s) = historyIndex s"
  "redoStack (handleStart e now s) = redoStack s"
  "canvasRect (handleStart e now s) = canvasRect s"
  by (simp_all add: handleStart_def Let_def openTextInput_def beginDrawing_def
      split: option.split)

lemma dpr_setTool: "dpr (setTool t s) = dpr s"
  by (simp add: dpr_def setTool_def)

lemma getPointerPos_setTool: "getPointerPos e (setTool t s) = getPointerPos e s"
  by (simp add: getPointerPos_def dpr_setTool split: option.split) (simp add: setTool_def)

lemma worldPosOf_setTool: "worldPosOf p (setTool t s) = worldPosOf p s"
  by (simp add: worldPosOf_def setTool_def)

lemma pointerHit_setTool: "pointerHit e (setTool t s) = pointerHit e s"
  by (simp add: pointerHit_def getPointerPos_setTool worldPosOf_setTool) (simp add: setTool_def)

lemma select_start:
  assumes "pointerHit (MouseEvent 0 False x y) s = Some h" "tool s = select_tool"
  shows "isDragging (handleStart (MouseEvent 0 False x y) now s)"
    and "isPanning (handleStart (MouseEvent 0 False x y) now s) = isPanning s"
    and "selectedElementId (handleStart (MouseEvent 0 False x y) now s) = Some (id_el h)"
  using assms
  by (simp_all add: handleStart_def pointerHit_def Let_def isMouseEvent_def split: option.split)

lemma length_updateFirst [simp]: "length (updateFirst P f xs) = length xs"
  by (induction xs) simp_all

lemma move_fields:
  assumes "\<not> isPanning s"
  shows "history (handleMove e s) = history s"
    and "historyIndex (handleMove e s) = historyIndex s"
    and "redoStack (handleMove e s) = redoStack s"
    and "canvasRect (handleMove e s) = canvasRect s"
    and "isPanning (handleMove e s) = isPanning s"
    and "isDragging (handleMove e s) = isDragging s"
    and "selectedElementId (handleMove e s) = selectedElementId s"
    and "length (elements (handleMove e s)) = length (elements s)"
  using assms by (simp_all add: handleMove_def Let_def split: option.split)

lemma end_of_drag:
  assumes "\<not> isPanning s" "isDragging s"
  shows "handleEnd s = debouncedSave (saveToHistory (s\<lparr>isDragging := False\<rparr>))"
  using assms by (simp add: handleEnd_def)

lemma pushed_at_end:
  "pushed doc h (length h) =
     (if 50 \<le> length h then (tl (h @ [doc]), length h) else (h @ [doc], Suc (length h)))"
  by (simp add: pushed_def Let_def)

lemma commit_Draw:
  assumes "isValid el"
  shows "history (commit (Draw el) s) = history (saveToHistory s)"
    and "historyIndex (commit (Draw el) s) = historyIndex (saveToHistory s)"
    and "redoStack (commit (Draw el) s) = []"
    and "canvasRect (commit (Draw el) s) = canvasRect s"
    and "elements (commit (Draw el) s) = elements s @ [el]"
  using assms
  by (simp_all add: handleEnd_def debouncedSave_def Let_def save_pushed)

lemma commit_EnterText:
  assumes "trim txt \<noteq> []" "canvasRect s \<noteq> None"
  shows "history (commit (EnterText txt wx wy now) s) = history (saveToHistory s)"
    and "historyIndex (commit (EnterText txt wx wy now) s) = historyIndex (saveToHistory s)"
    and "redoStack (commit (EnterText txt wx wy now) s) = []"
    and "canvasRect (commit (EnterText txt wx wy now) s) = canvasRect s"
    and "elements (commit (EnterText txt wx wy now) s) \<noteq> []"
proof -
  obtain r where r: "canvasRect s = Some r" using assms(2) by blast
  show "history (commit (EnterText txt wx wy now) s) = history (saveToHistory s)"
    and "historyIndex (commit (EnterText txt wx wy now) s) = historyIndex (saveToHistory s)"
    and "redoStack (commit (EnterText txt wx wy now) s) = []"
    and "canvasRect (commit (EnterText txt wx wy now) s) = canvasRect s"
    and "elements (commit (EnterText txt wx wy now) s) \<noteq> []"
    using assms(1) r
    by (simp_all add: handleTextCommit_def debouncedSave_def Let_def save_pushed)
qed

lemma commit_Delete:
  assumes "hasSelection s"
  shows "history (commit Delete s) = history (saveToHistory s)"
    and "historyIndex (commit Delete s) = historyIndex (saveToHistory s)"
    and "redoStack (commit Delete s) = []"
    and "elements (commit Delete s) =
           filter (\<lambda>el. Some (id_el el) \<noteq> selectedElementId s) (elements s)"
  using assms
  by (simp_all add: handleDelete_def debouncedSave_def Let_def save_pushed)

text \<open>
  A drag takes its snapshot at the release of the pointer, of the document that the move
  has left; it keeps the number of elements and leaves the element under the pointer
  selected.
\<close>

lemma commit_Drag:
  assumes "\<not> isPanning s" "pointerHit (MouseEvent 0 False x1 y1) s = Some h"
  shows "history (commit (Drag x1 y1 x2 y2) s) =
           fst (pushed (elements (commit (Drag x1 y1 x2 y2) s)) (history s) (historyIndex s))"
    and "historyIndex (commit (Drag x1 y1 x2 y2) s) =
           snd (pushed (elements (commit (Drag x1 y1 x2 y2) s)) (history s) (historyIndex s))"
    and "redoStack (commit (Drag x1 y1 x2 y2) s) = []"
    and "length (elements (commit (Drag x1 y1 x2 y2) s)) = length (elements s)"
    and "selectedElementId (commit (Drag x1 y1 x2 y2) s) = Some (id_el h)"
    and "\<not> isPanning (commit (Drag x1 y1 x2 y2) s)"
proof -
  let ?s0 = "setTool select_tool s"
  let ?s1 = "handleStart (MouseEvent 0 False x1 y1) [] ?s0"
  let ?s2 = "handleMove (MouseEvent 0 False x2 y2) ?s1"
  have h0: "pointerHit (MouseEvent 0 False x1 y1) ?s0 = Some h"
    using assms(2) by (simp only: pointerHit_setTool)
  have t0: "tool ?s0 = select_tool" by (simp add: setTool_def)
  note st = select_start[OF h0 t0, of "[]"]
  have p1: "\<not> isPanning ?s1" using st(2) assms(1) by (simp add: setTool_def)
  note mv = move_fields[OF p1, of "MouseEvent 0 False x2 y2"]
  have p2: "\<not> isPanning ?s2" "isDragging ?s2" using mv(5,6) p1 st(1) by simp_all
  have c: "commit (Drag x1 y1 x2 y2) s = debouncedSave (saveToHistory (?s2\<lparr>isDragging := False\<rparr>))"
    using end_of_drag[OF p2] by simp
  have e: "elements (commit (Drag x1 y1 x2 y2) s) = elements ?s2"
    unfolding c by (simp add: debouncedSave_def)
  have f: "history ?s2 = history s" "historyIndex ?s2 = historyIndex s"
    using mv(1,2) by (simp_all add: start_fields setTool_def)
  show "history (commit (Drag x1 y1 x2 y2) s) =
           fst (pushed (elements (commit (Drag x1 y1 x2 y2) s)) (history s) (historyIndex s))"
    unfolding e unfolding c by (simp add: debouncedSave_def save_pushed f)
  show "historyIndex (commit (Drag x1 y1 x2 y2) s) =
           snd (pushed (elements (commit (Drag x1 y1 x2 y2) s)) (history s) (historyIndex s))"
    unfolding e unfolding c by (simp add: debouncedSave_def save_pushed f)
  show "redoStack (commit (Drag x1 y1 x2 y2) s) = []"
    unfolding c by (simp add: debouncedSave_def)
  show "length (elements (commit (Drag x1 y1 x2 y2) s)) = length (elements s)"
    unfolding e using mv(8) by (simp add: start_fields setTool_def)
  have "selectedElementId (saveToHistory (?s2\<lparr>isDragging := False\<rparr>)) = selectedElementId ?s2"
    by (simp add: saveToHistory_def Let_def)
  then show "selectedElementId (commit (Drag x1 y1 x2 y2) s) = Some (id_el h)"
    unfolding c using mv(7) st(3) by (simp add: debouncedSave_def)
  have "isPanning (saveToHistory (?s2\<lparr>isDragging := False\<rparr>)) = isPanning ?s2"
    by (simp add: saveToHistory_def Let_def)
  then show "\<not> isPanning (commit (Drag x1 y1 x2 y2) s)"
    unfolding c using p2(1) by (simp add: debouncedSave_def)
qed

text \<open>Every committed mutation takes one snapshot and empties the redo stack.\<close>

lemma commit_pushes:
  assumes "commits m s"
  shows "history (commit m s) = fst (pushed (snapshotOf m s) (history s) (historyIndex s)) \<and>
         historyIndex (commit m s) = snd (pushed (snapshotOf m s) (history s) (historyIndex s)) \<and>
         redoStack (commit m s) = []"
proof (cases m)
  case (Draw el)
  then have "isValid el" using assms by simp
  from commit_Draw[OF this, of s] show ?thesis unfolding Draw by (simp add: save_pushed)
next
  case (EnterText tx wx wy now)
  then have "trim tx \<noteq> []" "canvasRect s \<noteq> None" using assms by simp_all
  from commit_EnterText[OF this, of wx wy now] show ?thesis
    unfolding EnterText by (simp add: save_pushed)
next
  case (Drag x1 y1 x2 y2)
  then obtain h where "\<not> isPanning s" "pointerHit (MouseEvent 0 False x1 y1) s = Some h"
    using assms by auto
  from commit_Drag(1-3)[OF this, of x2 y2] show ?thesis unfolding Drag by simp
next
  case Delete
  then have "hasSelection s" using assms by simp
  from commit_Delete(1-3)[OF this] show ?thesis unfolding Delete by (simp add: save_pushed)
qed

lemma commit_adds:
  assumes "commits m s" "adds m"
  shows "elements (commit m s) \<noteq> []"
proof (cases m)
  case (Draw el)
  then have "isValid el" using assms(1) by simp
  from commit_Draw[OF this, of s] show ?thesis unfolding Draw by simp
next
  case (EnterText tx wx wy now)
  then have "trim tx \<noteq> []" "canvasRect s \<noteq> None" using assms(1) by simp_all
  from commit_EnterText[OF this, of wx wy now] show ?thesis unfolding EnterText by blast
next
  case (Drag x1 y1 x2 y2)
  then show ?thesis using assms(2) by simp
next
  case Delete
  then show ?thesis using assms(2) by simp
qed

text \<open>The snapshot of a mutation is empty only if the document before it is.\<close>

lemma snapshot_empty:
  assumes "commits m s" "snapshotOf m s = []"
  shows "elements s = []"
proof (cases m)
  case (Drag x1 y1 x2 y2)
  then obtain h where "\<not> isPanning s" "pointerHit (MouseEvent 0 False x1 y1) s = Some h"
    using assms(1) by auto
  from commit_Drag(4)[OF this, of x2 y2] assms(2) show ?thesis unfolding Drag by simp
qed (use assms(2) in simp_all)

lemma tl_drop_Suc: "tl (drop n xs) = drop (Suc n) xs"
  by (simp add: drop_Suc tl_drop)

lemma run_snoc: "run (ms @ [m]) s = commit m (run ms s)"
  by (induction ms arbitrary: s) simp_all

lemma run_append: "run (ms @ ns) s = run ns (run ms s)"
  by (induction ms arbitrary: s) simp_all

lemma allCommit_append: "allCommit s (ms @ ns) \<longleftrightarrow> allCommit s ms \<and> allCommit (run ms s) ns"
  by (induction ms arbitrary: s) simp_all

lemma allCommit_take: "allCommit s ms \<Longrightarrow> allCommit s (take k ms)"
  using allCommit_append[of s "take k ms" "drop k ms"] by simp

lemma allCommit_nth: "allCommit s ms \<Longrightarrow> k < length ms \<Longrightarrow> commits (ms ! k) (run (take k ms) s)"
proof (induction ms arbitrary: s k)
  case Nil
  then show ?case by simp
next
  case (Cons m ms)
  then show ?case by (cases k) simp_all
qed

lemma snapshots_snoc:
  "snapshots s (ms @ [m]) = snapshots s ms @ [snapshotOf m (run ms s)]"
  by (induction ms arbitrary: s) simp_all

lemma length_snapshots [simp]: "length (snapshots s ms) = length ms"
  by (induction ms arbitrary: s) simp_all

lemma snapshots_nth:
  "k < length ms \<Longrightarrow> snapshots s ms ! k = snapshotOf (ms ! k) (run (take k ms) s)"
proof (induction ms arbitrary: s k)
  case Nil
  then show ?case by simp
next
  case (Cons m ms)
  then show ?case by (cases k) simp_all
qed

lemma run_history:
  assumes "allCommit s ms"
    and "historyIndex s = length (history s)" and "length (history s) \<le> 50"
  shows "history (run ms s) =
           drop (length (history s) + length ms - 50) (history s @ snapshots s ms)
         \<and> historyIndex (run ms s) = length (history (run ms s))"
  using assms(1)
proof (induction ms rule: rev_induct)
  case Nil
  then show ?case using assms by simp
next
  case (snoc m ms)
  let ?t = "run ms s"
  let ?x = "snapshotOf m ?t"
  let ?S = "history s @ snapshots s ms"
  let ?d = "length (history s) + length ms - 50"
  have wf: "allCommit s ms" and cm: "commits m ?t"
    using snoc.prems by (simp_all add: allCommit_append)
  have IH: "history ?t = drop ?d ?S" "historyIndex ?t = length (history ?t)"
    using snoc.IH wf by simp_all
  have len: "length (history ?t) = length ?S - ?d" using IH(1) by simp
  have p: "pushed ?x (history ?t) (historyIndex ?t) =
        (if 50 \<le> length (history ?t) then (tl (history ?t @ [?x]), length (history ?t))
         else (history ?t @ [?x], Suc (length (history ?t))))"
    using IH(2) by (simp add: pushed_at_end)
  have h: "history (run (ms @ [m]) s) = fst (pushed ?x (history ?t) (historyIndex ?t))"
    and i: "historyIndex (run (ms @ [m]) s) = snd (pushed ?x (history ?t) (historyIndex ?t))"
    using commit_pushes[OF cm] by (simp_all add: run_snoc)
  have S': "history s @ snapshots s (ms @ [m]) = ?S @ [?x]"
    by (simp add: snapshots_snoc)
  have app: "history ?t @ [?x] = drop ?d (?S @ [?x])"
    using IH(1) by simp
  show ?case
  proof (cases "50 \<le> length (history ?t)")
    case True
    then have ge: "50 \<le> length (history s) + length ms" using len by simp
    have "tl (history ?t @ [?x]) = drop (Suc ?d) (?S @ [?x])"
      unfolding app by (rule tl_drop_Suc)
    moreover have "Suc ?d = length (history s) + length (ms @ [m]) - 50" using ge by simp
    ultimately have "history (run (ms @ [m]) s) =
        drop (length (history s) + length (ms @ [m]) - 50) (history s @ snapshots s (ms @ [m]))"
      using h p True S' by simp
    moreover have "historyIndex (run (ms @ [m]) s) = length (history (run (ms @ [m]) s))"
      using h i p True by simp
    ultimately show ?thesis by blast
  next
    case False
    then have lt: "length (history s) + length ms < 50" using len by simp
    have "history (run (ms @ [m]) s) = ?S @ [?x]"
      using h p False app lt by simp
    moreover have "length (history s) + length (ms @ [m]) - 50 = 0" using lt by simp
    ultimately have "history (run (ms @ [m]) s) =
        drop (length (history s) + length (ms @ [m]) - 50) (history s @ snapshots s (ms @ [m]))"
      using S' by simp
    moreover have "historyIndex (run (ms @ [m]) s) = length (history (run (ms @ [m]) s))"
      using h i p False by simp
    ultimately show ?thesis by blast
  qed
qed

section \<open>Iterated undo and redo\<close>

lemma undo_at_zero: "historyIndex s = 0 \<Longrightarrow> handleUndo s = s"
  by (simp add: handleUndo_def)

lemma undo_push:
  assumes "0 < historyIndex s"
  shows "redoStack (handleUndo s) = redoStack s @ [elements s]"
    and "historyIndex (handleUndo s) = historyIndex s - 1"
    and "history (handleUndo s) = history s"
  using assms
  by (simp_all add: handleUndo_def Let_def debouncedSave_def split: option.split)

lemma undo_at_one: "historyIndex s = 1 \<Longrightarrow> elements (handleUndo s) = elements s"
  by (simp add: handleUndo_def Let_def snapshotAt_def)

lemma undo_elements:
  assumes "historyIndex s = Suc (Suc i)" "i < length (history s)"
  shows "elements (handleUndo s) = history s ! i"
  using assms by (simp add: handleUndo_def Let_def snapshotAt_def debouncedSave_def)

lemma undo_iter_index:
  "k \<le> historyIndex s \<Longrightarrow>
     historyIndex ((handleUndo ^^ k) s) = historyIndex s - k \<and>
     history ((handleUndo ^^ k) s) = history s"
proof (induction k)
  case 0
  then show ?case by simp
next
  case (Suc k)
  then have "0 < historyIndex ((handleUndo ^^ k) s)" by simp
  from undo_push(2,3)[OF this] Suc show ?case by simp
qed

lemma undo_iter_redo:
  "k \<le> historyIndex s \<Longrightarrow>
     length (redoStack ((handleUndo ^^ k) s)) = length (redoStack s) + k \<and>
     (0 < k \<longrightarrow> redoStack ((handleUndo ^^ k) s) ! length (redoStack s) = elements s)"
proof (induction k)
  case 0
  then show ?case by simp
next
  case (Suc k)
  then have k: "k \<le> historyIndex s" by simp
  with undo_iter_index[OF k] Suc.prems have "0 < historyIndex ((handleUndo ^^ k) s)" by simp
  from undo_push(1)[OF this]
  have r: "redoStack ((handleUndo ^^ Suc k) s) =
           redoStack ((handleUndo ^^ k) s) @ [elements ((handleUndo ^^ k) s)]" by simp
  show ?case
  proof (cases k)
    case 0
    then show ?thesis using r by simp
  next
    case (Suc j)
    then show ?thesis using r Suc.IH[OF k] by (simp add: nth_append)
  qed
qed

lemma undo_iter_elements:
  "0 < k \<Longrightarrow> k < historyIndex s \<Longrightarrow> historyIndex s \<le> length (history s) \<Longrightarrow>
     elements ((handleUndo ^^ k) s) = history s ! (historyIndex s - k - 1)"
proof (induction k)
  case 0
  then show ?case by simp
next
  case (Suc k)
  let ?t = "(handleUndo ^^ k) s"
  have k: "k \<le> historyIndex s" using Suc.prems by simp
  have i: "historyIndex ?t = Suc (Suc (historyIndex s - Suc k - 1))"
    using undo_iter_index[OF k] Suc.prems by simp
  have l: "historyIndex s - Suc k - 1 < length (history ?t)"
    using undo_iter_index[OF k] Suc.prems by simp
  from undo_elements[OF i l] undo_iter_index[OF k] show ?case by simp
qed

lemma undo_low:
  "historyIndex s \<le> 1 \<Longrightarrow>
     elements ((handleUndo ^^ j) s) = elements s \<and> historyIndex ((handleUndo ^^ j) s) \<le> 1"
proof (induction j)
  case 0
  then show ?case by simp
next
  case (Suc j)
  let ?t = "(handleUndo ^^ j) s"
  have t: "elements ?t = elements s" "historyIndex ?t \<le> 1" using Suc by simp_all
  show ?case
  proof (cases "historyIndex ?t = 0")
    case True
    then show ?thesis using t undo_at_zero[of ?t] by simp
  next
    case False
    then have one: "historyIndex ?t = 1" using t(2) by simp
    then have "0 < historyIndex ?t" by simp
    from undo_push(2)[OF this] undo_at_one[OF one] t one show ?thesis by simp
  qed
qed

lemma undo_to_bottom:
  assumes "2 \<le> historyIndex s" "historyIndex s \<le> length (history s)"
    and "historyIndex s - 1 \<le> k"
  shows "elements ((handleUndo ^^ k) s) = history s ! 0"
proof -
  let ?n = "historyIndex s - 1"
  let ?t = "(handleUndo ^^ ?n) s"
  have e: "elements ?t = history s ! 0"
    using undo_iter_elements[of ?n s] assms by simp
  have i: "historyIndex ?t \<le> 1" using undo_iter_index[of ?n s] assms by simp
  have "k = (k - ?n) + ?n" using assms(3) by simp
  then have "(handleUndo ^^ k) s = (handleUndo ^^ (k - ?n)) ?t"
    by (metis funpow_add o_apply)
  then show ?thesis using undo_low[OF i, of "k - ?n"] e by simp
qed

lemma redo_iter:
  "0 < n \<Longrightarrow> n \<le> length (redoStack s) \<Longrightarrow>
     elements ((handleRedo ^^ n) s) = redoStack s ! (length (redoStack s) - n)"
proof (induction n arbitrary: s)
  case 0
  then show ?case by simp
next
  case (Suc n)
  have ne: "redoStack s \<noteq> []" using Suc.prems by auto
  have r: "redoStack (handleRedo s) = butlast (redoStack s)"
    and e: "elements (handleRedo s) = last (redoStack s)"
    using ne by (simp_all add: handleRedo_def Let_def debouncedSave_def)
  have f: "(handleRedo ^^ Suc n) s = (handleRedo ^^ n) (handleRedo s)"
    by (simp add: funpow_swap1)
  show ?case
  proof (cases n)
    case 0
    then show ?thesis using e ne by (simp add: last_conv_nth)
  next
    case (Suc j)
    then have "elements ((handleRedo ^^ n) (handleRedo s)) =
        redoStack (handleRedo s) ! (length (redoStack (handleRedo s)) - n)"
      using Suc.IH[of "handleRedo s"] Suc.prems r by simp
    then show ?thesis unfolding f using r Suc.prems Suc by (simp add: nth_butlast)
  qed
qed

section \<open>Runs from the freshly mounted component\<close>

lemma run_redo_empty:
  "allCommit s ms \<Longrightarrow> redoStack s = [] \<Longrightarrow> redoStack (run ms s) = []"
proof (induction ms arbitrary: s)
  case Nil
  then show ?case by simp
next
  case (Cons m ms)
  then show ?case using commit_pushes[of m s] by simp
qed

lemma fresh_history:
  assumes "fresh s" "allCommit s ms"
  shows "history (run ms s) = drop (Suc (length ms) - 50) ([] # snapshots s ms)"
    and "historyIndex (run ms s) = length (history (run ms s))"
    and "redoStack (run ms s) = []"
proof -
  have h: "history s = [[]]" and i: "historyIndex s = 1" and r: "redoStack s = []"
    using assms(1) by (simp_all add: fresh_def)
  from run_history[OF assms(2)] h i
  show "history (run ms s) = drop (Suc (length ms) - 50) ([] # snapshots s ms)"
    and "historyIndex (run ms s) = length (history (run ms s))"
    by simp_all
  from run_redo_empty[OF assms(2) r] show "redoStack (run ms s) = []" .
qed

lemma mounted_fresh: "fresh mounted"
  by (simp add: fresh_def mounted_def initializeHistory_def newWhiteboard_def)

lemma undo_then_redo:
  assumes "k \<le> historyIndex t" "redoStack t = []"
  shows "elements ((handleRedo ^^ k) ((handleUndo ^^ k) t)) = elements t"
proof (cases k)
  case 0
  then show ?thesis by simp
next
  case (Suc j)
  let ?u = "(handleUndo ^^ k) t"
  from undo_iter_redo[OF assms(1)] assms(2) Suc
  have l: "length (redoStack ?u) = k" and z: "redoStack ?u ! 0 = elements t" by simp_all
  from redo_iter[of k ?u] l Suc z show ?thesis by simp
qed

lemma run_take_adds:
  assumes "allCommit s ms" "k < length ms" "adds (ms ! k)"
  shows "elements (run (take (Suc k) ms) s) \<noteq> []"
proof -
  have t: "take (Suc k) ms = take k ms @ [ms ! k]"
    using assms(2) by (simp add: take_Suc_conv_app_nth)
  from commit_adds[OF allCommit_nth[OF assms(1,2)] assms(3)] show ?thesis
    unfolding t by (simp add: run_snoc)
qed

text \<open>
  After 60 committed mutations the history holds the 11th to the 60th snapshot, and 50
  undos end at the first of them.
\<close>

lemma sixty_then_fifty_undos:
  assumes "fresh s" "allCommit s ms" "length ms = 60"
  shows "length (history (run ms s)) = 50"
    and "history (run ms s) = drop 10 (snapshots s ms)"
    and "elements ((handleUndo ^^ 50) (run ms s)) = snapshotOf (ms ! 10) (run (take 10 ms) s)"
proof -
  let ?t = "run ms s"
  note H = fresh_history[OF assms(1,2)]
  show h: "history ?t = drop 10 (snapshots s ms)" using H(1) assms(3) by simp
  then show len: "length (history ?t) = 50" using assms(3) by simp
  have "history ?t ! 0 = snapshots s ms ! 10" using h assms(3) by simp
  then have bottom: "history ?t ! 0 = snapshotOf (ms ! 10) (run (take 10 ms) s)"
    using snapshots_nth[of 10 ms s] assms(3) by simp
  have "2 \<le> historyIndex ?t" "historyIndex ?t \<le> length (history ?t)"
    "historyIndex ?t - 1 \<le> 50"
    using H(2) len by simp_all
  from undo_to_bottom[OF this] bottom
  show "elements ((handleUndo ^^ 50) ?t) = snapshotOf (ms ! 10) (run (take 10 ms) s)" by simp
qed

text \<open>
  From the freshly mounted component a run of 50 committed mutations at most is taken
  back in full by as many undos, and restored by as many redos: the snapshot at the
  bottom of the history is the empty document, pushed at the mount or by the first
  mutation.
\<close>

lemma no_hit_on_empty: "elements s = [] \<Longrightarrow> pointerHit e s = None"
  by (simp add: pointerHit_def getElementAtPosition_def Let_def)

lemma first_snapshot:
  assumes "elements s = []" "commits m s"
  shows "snapshotOf m s = []"
proof (cases m)
  case (Drag x1 y1 x2 y2)
  then show ?thesis using assms no_hit_on_empty[OF assms(1)] by simp
qed (use assms(1) in simp_all)

lemma undo_redo_from_fresh:
  assumes "fresh s" and "allCommit s ms" and "length ms \<le> 50"
  shows "elements ((handleUndo ^^ length ms) (run ms s)) = elements s"
    and "elements ((handleRedo ^^ length ms) ((handleUndo ^^ length ms) (run ms s))) =
           elements (run ms s)"
proof -
  let ?t = "run ms s"
  let ?n = "length ms"
  note H = fresh_history[OF assms(1,2)]
  have e: "elements s = []" using assms(1) by (simp add: fresh_def)
  have len: "length (history ?t) = (if ?n = 50 then 50 else Suc ?n)"
    using H(1) assms(3) by simp
  show undo: "elements ((handleUndo ^^ ?n) ?t) = elements s"
  proof (cases "?n = 0")
    case True
    then show ?thesis by simp
  next
    case False
    have bottom: "history ?t ! 0 = []"
    proof (cases "?n = 50")
      case True
      then have "history ?t = snapshots s ms" using H(1) by simp
      then have "history ?t ! 0 = snapshotOf (ms ! 0) (run (take 0 ms) s)"
        using snapshots_nth[of 0 ms s] True by simp
      moreover have "commits (ms ! 0) (run (take 0 ms) s)"
        by (rule allCommit_nth[OF assms(2)]) (use True in simp)
      ultimately show ?thesis using first_snapshot[OF e, of "ms ! 0"] by simp
    next
      case False
      then have "history ?t = [] # snapshots s ms" using H(1) assms(3) by simp
      then show ?thesis by simp
    qed
    have "2 \<le> historyIndex ?t" "historyIndex ?t \<le> length (history ?t)"
      "historyIndex ?t - 1 \<le> ?n"
      using H(2) len False assms(3) by (auto split: if_splits simp: Suc_le_eq)
    from undo_to_bottom[OF this] bottom e show ?thesis by simp
  qed
  have "?n \<le> historyIndex ?t" using H(2) len by (simp split: if_splits)
  from undo_then_redo[OF this H(3)]
  show "elements ((handleRedo ^^ ?n) ((handleUndo ^^ ?n) ?t)) = elements ?t" .
qed

section \<open>The example runs\<close>

lemma lineA_valid: "isValid lineA"
  by (simp add: isValid_def lineA_def isPath_def hasEnd_def)

section \<open>Zoom\<close>

lemma zoom_transform:
  assumes "canvasRect s = Some (rl, rt)" "ctrlKey e"
  shows "scale (transform (handleWheel e s)) =
           min (max 0.1 (scale (transform s) + - deltaY e * 0.001)) 10"
    and "x_pt (offset (transform (handleWheel e s))) =
           x_pt (wheelPos e s)
           - (x_pt (wheelPos e s) - x_pt (offset (transform s))) / scale (transform s)
             * scale (transform (handleWheel e s))"
    and "y_pt (offset (transform (handleWheel e s))) =
           y_pt (wheelPos e s)
           - (y_pt (wheelPos e s) - y_pt (offset (transform s))) / scale (transform s)
             * scale (transform (handleWheel e s))"
  using assms by (simp_all add: handleWheel_def wheelPos_def Let_def)

section \<open>Trimming\<close>

lemma rev_take_drop_While:
  "xs = rev (dropWhile P (rev xs)) @ rev (takeWhile P (rev xs))"
proof -
  have "rev (takeWhile P (rev xs) @ dropWhile P (rev xs)) = rev (rev xs)"
    by (simp only: takeWhile_dropWhile_id)
  then show ?thesis by (simp only: rev_append rev_rev_ident)
qed

lemma all_dropWhile: "(\<forall>c\<in>set (dropWhile P xs). P c) \<longleftrightarrow> (\<forall>c\<in>set xs. P c)"
proof
  assume a: "\<forall>c\<in>set (dropWhile P xs). P c"
  have "set xs = set (takeWhile P xs) \<union> set (dropWhile P xs)"
    by (metis set_append takeWhile_dropWhile_id)
  then show "\<forall>c\<in>set xs. P c" using a by (auto dest: set_takeWhileD)
next
  assume "\<forall>c\<in>set xs. P c"
  then show "\<forall>c\<in>set (dropWhile P xs). P c" by (auto dest: set_dropWhileD)
qed

lemma trim_decomposition:
  "\<exists>a b. s = a @ trim s @ b \<and> list_all isWhiteSpace a \<and> list_all isWhiteSpace b"
proof -
  let ?d = "dropWhile isWhiteSpace s"
  have 1: "s = takeWhile isWhiteSpace s @ ?d" by simp
  have 2: "?d = trim s @ rev (takeWhile isWhiteSpace (rev ?d))"
    unfolding trim_def by (rule rev_take_drop_While)
  have a: "list_all isWhiteSpace (takeWhile isWhiteSpace s)"
    unfolding list_all_iff by (auto dest: set_takeWhileD)
  have b: "list_all isWhiteSpace (rev (takeWhile isWhiteSpace (rev ?d)))"
    unfolding list_all_iff set_rev by (auto dest: set_takeWhileD)
  from 1 2 have "s = takeWhile isWhiteSpace s @ trim s @ rev (takeWhile isWhiteSpace (rev ?d))"
    by simp
  with a b show ?thesis by blast
qed

lemma trim_blank: "trim s = [] \<longleftrightarrow> (\<forall>c\<in>set s. isWhiteSpace c)"
proof -
  have "trim s = [] \<longleftrightarrow> (\<forall>c\<in>set (dropWhile isWhiteSpace s). isWhiteSpace c)"
    by (simp add: trim_def dropWhile_eq_Nil_conv)
  then show ?thesis by (simp only: all_dropWhile)
qed

lemma trim_ends:
  assumes "trim s \<noteq> []"
  shows "\<not> isWhiteSpace (hd (trim s)) \<and> \<not> isWhiteSpace (last (trim s))"
proof -
  let ?d = "dropWhile isWhiteSpace s"
  let ?r = "dropWhile isWhiteSpace (rev ?d)"
  have r: "?r \<noteq> []" using assms by (simp add: trim_def)
  have d: "?d \<noteq> []"
  proof
    assume "?d = []"
    then have "?r = []" by (simp only: rev.simps dropWhile.simps)
    with r show False by contradiction
  qed
  have t: "trim s = rev ?r" by (simp add: trim_def)
  have "last (trim s) = hd ?r" unfolding t using r by (simp add: last_rev)
  then have l: "\<not> isWhiteSpace (last (trim s))" using hd_dropWhile[OF r] by simp
  have "?d = trim s @ rev (takeWhile isWhiteSpace (rev ?d))"
    unfolding trim_def by (rule rev_take_drop_While)
  then have "hd ?d = hd (trim s)" using assms by (metis hd_append2)
  then have "\<not> isWhiteSpace (hd (trim s))" using hd_dropWhile[OF d] by simp
  with l show ?thesis by simp
qed

section \<open>Committing a text\<close>

lemma blank_commit:
  assumes "trim tx = []"
  shows "elements (handleTextCommit tx now s) = elements s"
    and "history (handleTextCommit tx now s) = history s"
    and "historyIndex (handleTextCommit tx now s) = historyIndex s"
    and "redoStack (handleTextCommit tx now s) = redoStack s"
    and "saveRequests (handleTextCommit tx now s) = saveRequests s"
    and "textInputState (handleTextCommit tx now s) = None"
  using assms by (simp_all add: handleTextCommit_def split: option.split)

lemma text_commit:
  assumes "trim tx \<noteq> []" "textInputState s = Some ti" "canvasRect s = Some r"
  shows "elements (handleTextCommit tx now s) =
           elements s @
           [\<lparr>id_el = now, type_el = text_el, x_el = worldX_ti ti, y_el = worldY_ti ti,
             endX = None, endY = None, points = None, text_of = Some (trim tx),
             color_el = color s, size_el = size_brush s, fontFamily = Some ''Arial'',
             fontSize = Some 16\<rparr>]"
    and "history (handleTextCommit tx now s) = history (saveToHistory s)"
    and "saveRequests (handleTextCommit tx now s) = Suc (saveRequests s)"
  using assms
  by (simp_all add: handleTextCommit_def Let_def debouncedSave_def saveToHistory_def)

lemma textOpen_state:
  "textInputState textOpen \<noteq> None" "canvasRect textOpen \<noteq> None" "elements textOpen = []"
  by (simp_all add: textOpen_def click_def handleStart_def isMouseEvent_def Let_def
      openTextInput_def mounted_def initializeHistory_def newWhiteboard_def)

section \<open>The end of a drawing\<close>

lemma save_requests [simp]: "saveRequests (saveToHistory s) = saveRequests s"
  by (simp add: saveToHistory_def Let_def)

lemma shape_tool_cases:
  assumes "isShapeTool (tool s)"
  shows "tool s \<noteq> pan_tool" "tool s \<noteq> select_tool" "tool s \<noteq> text_tool"
    "tool s \<noteq> pen_tool" "tool s \<noteq> eraser_tool"
  using assms by (auto simp: isShapeTool_def)

lemma shape_start:
  assumes "isShapeTool (tool s)"
  shows "handleStart e now s =
     (if (isMouseEvent e \<and> button e = 1) \<or> (isMouseEvent e \<and> shiftKey e)
      then s\<lparr>isPanning := True, lastMousePos := getPointerPos e s\<rparr>
      else if isMouseEvent e \<and> button e \<noteq> 0 then s
      else s\<lparr>isDrawing := True,
             currentElement := Some (newShapeElement now (worldPosOf (getPointerPos e s) s) s)\<rparr>)"
  using assms shape_tool_cases[OF assms]
  by (simp add: handleStart_def beginDrawing_def Let_def)


lemma shapeType_not_path: "shapeType t \<noteq> pencil" "shapeType t \<noteq> eraser"
  by (simp_all add: shapeType_def)

lemma new_shape_invalid: "\<not> isValid (newShapeElement now p s)"
  by (simp add: isValid_def newShapeElement_def isPath_def hasEnd_def shapeType_not_path)

lemma end_idle: "idle s \<Longrightarrow> handleEnd s = s"
  by (simp add: handleEnd_def idle_def)

lemma end_drawing_invalid:
  assumes "\<not> isPanning t" "\<not> isDragging t" "isDrawing t" "currentElement t = Some cur"
    and "\<not> isValid cur"
  shows "handleEnd t = t\<lparr>isDrawing := False, currentElement := None\<rparr>"
  using assms by (simp add: handleEnd_def Let_def)

lemma end_drawing_valid:
  assumes "\<not> isPanning t" "\<not> isDragging t" "isDrawing t" "currentElement t = Some cur"
    and "isValid cur"
  shows "elements (handleEnd t) = elements t @ [cur]"
    and "history (handleEnd t) = history (saveToHistory t)"
    and "historyIndex (handleEnd t) = historyIndex (saveToHistory t)"
    and "redoStack (handleEnd t) = []"
    and "saveRequests (handleEnd t) = Suc (saveRequests t)"
    and "currentElement (handleEnd t) = None"
  using assms by (simp_all add: handleEnd_def Let_def debouncedSave_def save_pushed)

lemma click_discarded:
  assumes "idle s" "isShapeTool (tool s)"
  shows "elements (handleEnd (handleStart e now s)) = elements s \<and>
         history (handleEnd (handleStart e now s)) = history s \<and>
         historyIndex (handleEnd (handleStart e now s)) = historyIndex s \<and>
         redoStack (handleEnd (handleStart e now s)) = redoStack s \<and>
         saveRequests (handleEnd (handleStart e now s)) = saveRequests s \<and>
         currentElement (handleEnd (handleStart e now s)) = None"
proof -
  let ?p = "s\<lparr>isPanning := True, lastMousePos := getPointerPos e s\<rparr>"
  let ?el = "newShapeElement now (worldPosOf (getPointerPos e s) s) s"
  let ?d = "s\<lparr>isDrawing := True, currentElement := Some ?el\<rparr>"
  have i: "\<not> isPanning s" "\<not> isDragging s" "\<not> isDrawing s" "currentElement s = None"
    using assms(1) by (simp_all add: idle_def)
  consider (pan) "handleStart e now s = ?p" | (none) "handleStart e now s = s"
    | (draw) "handleStart e now s = ?d"
    using shape_start[OF assms(2), of e now] by presburger
  then show ?thesis
  proof cases
    case pan
    have "handleEnd ?p = ?p\<lparr>isPanning := False\<rparr>" by (simp add: handleEnd_def)
    then show ?thesis unfolding pan using i(4) by simp
  next
    case none
    then show ?thesis using end_idle[OF assms(1)] i(4) by simp
  next
    case draw
    have "handleEnd ?d = ?d\<lparr>isDrawing := False, currentElement := None\<rparr>"
      by (rule end_drawing_invalid[where cur = ?el]) (simp_all add: i new_shape_invalid)
    then show ?thesis unfolding draw by simp
  qed
qed

lemma valid_path:
  assumes "isPath cur" "\<not> hasEnd cur"
  shows "isValid cur \<longleftrightarrow> (\<exists>ps. points cur = Some ps \<and> 2 \<le> length ps)"
  using assms by (auto simp: isValid_def split: option.splits)

lemma valid_shape:
  assumes "\<not> isPath cur" "hasEnd cur"
  shows "isValid cur \<longleftrightarrow>
           1 < maxX (getElementBounds cur) - minX (getElementBounds cur) \<or>
           1 < maxY (getElementBounds cur) - minY (getElementBounds cur)"
proof -
  obtain ex ey where e: "endX cur = Some ex" "endY cur = Some ey"
    using assms(2) by (auto simp: hasEnd_def)
  have b: "getElementBounds cur =
      \<lparr>minX = min (x_el cur) ex, minY = min (y_el cur) ey,
       maxX = max (x_el cur) ex, maxY = max (y_el cur) ey\<rparr>"
    using assms(1) e by (simp add: getElementBounds_def)
  have "max (x_el cur) ex - min (x_el cur) ex = \<bar>ex - x_el cur\<bar>"
    "max (y_el cur) ey - min (y_el cur) ey = \<bar>ey - y_el cur\<bar>"
    by (simp_all add: max_def min_def)
  then show ?thesis using assms e by (simp add: isValid_def b Let_def)
qed

lemma rectReady_state: "idle rectReady" "isShapeTool (tool rectReady)" "elements rectReady = []"
  "history rectReady = [[]]"
  by (simp_all add: rectReady_def idle_def isShapeTool_def mounted_def initializeHistory_def
      newWhiteboard_def)

lemma rectStarted_eq:
  "rectStarted = rectReady\<lparr>isDrawing := True, currentElement := Some rectPoint\<rparr>"
proof -
  have "newShapeElement ''1'' (worldPosOf (getPointerPos click rectReady) rectReady) rectReady
        = rectPoint"
    by (simp add: newShapeElement_def worldPosOf_def getPointerPos_def click_def
        screenToWorld_def dpr_def rectReady_def mounted_def initializeHistory_def
        newWhiteboard_def shapeType_def rectPoint_def)
  then show ?thesis
    unfolding rectStarted_def shape_start[OF rectReady_state(2)]
    by (simp add: click_def isMouseEvent_def)
qed

lemma rectDrawn_eq:
  "rectDrawn = rectReady\<lparr>isDrawing := True, currentElement := Some rectBox\<rparr>"
proof -
  have i: "\<not> isPanning rectReady" "\<not> isDragging rectReady"
    using rectReady_state(1) by (simp_all add: idle_def)
  have p: "worldPosOf (getPointerPos (MouseEvent 0 False 60 70) rectStarted) rectStarted
        = \<lparr>x_pt = 60, y_pt = 70\<rparr>"
    by (simp add: rectStarted_eq worldPosOf_def getPointerPos_def
        screenToWorld_def dpr_def rectReady_def mounted_def initializeHistory_def
        newWhiteboard_def)
  show ?thesis
    unfolding rectDrawn_def handleMove_def Let_def p
    by (simp add: rectStarted_eq i rectPoint_def rectBox_def hasEnd_def)
qed

lemma strokeA_shape: "isPath strokeA" "\<not> hasEnd strokeA" "isValid strokeA"
  by (simp_all add: strokeA_def isPath_def hasEnd_def isValid_def)

lemma rectBox_shape: "\<not> isPath rectBox" "hasEnd rectBox" "isValid rectBox"
  "\<not> isValid rectPoint"
  by (simp_all add: rectBox_def rectPoint_def isPath_def hasEnd_def isValid_def)

lemma rect_states:
  "\<not> isPanning rectStarted" "\<not> isDragging rectStarted" "isDrawing rectStarted"
  "currentElement rectStarted = Some rectPoint"
  "\<not> isPanning rectDrawn" "\<not> isDragging rectDrawn" "isDrawing rectDrawn"
  "currentElement rectDrawn = Some rectBox"
  "elements rectStarted = []" "elements rectDrawn = []"
  using rectReady_state(1,3) by (simp_all add: rectStarted_eq rectDrawn_eq idle_def)

section \<open>States reached in the examples\<close>

lemma mounted_state:
  "elements mounted = []" "history mounted = [[]]" "historyIndex mounted = 1"
  "redoStack mounted = []" "undoCount mounted = 0" "redoCount mounted = 0"
  "canvasRect mounted = Some (0, 0)" "tool mounted = pen_tool"
  "\<not> isPanning mounted" "\<not> isDragging mounted" "\<not> isDrawing mounted"
  "currentElement mounted = None" "transform mounted = \<lparr>scale = 1, offset = \<lparr>x_pt = 0, y_pt = 0\<rparr>\<rparr>"
  "devicePixelRatio mounted = 1" "color mounted = ''#000000''" "size_brush mounted = 3"
  "selectedElementId mounted = None"
  by (simp_all add: mounted_def initializeHistory_def newWhiteboard_def)

lemma shapes_valid: "isValid rectA" "isValid circleA"
  by (simp_all add: isValid_def rectA_def circleA_def isPath_def hasEnd_def)

lemma three_drawn:
  "elements (run threeShapes mounted) = [lineA, rectA, circleA]"
  "history (run threeShapes mounted) = [[], [], [lineA], [lineA, rectA]]"
  "historyIndex (run threeShapes mounted) = 4"
  "redoStack (run threeShapes mounted) = []"
proof -
  have w: "allCommit mounted threeShapes"
    by (simp add: threeShapes_def lineA_valid shapes_valid)
  have e1: "elements (commit (Draw lineA) mounted) = [lineA]"
    using commit_Draw(5)[OF lineA_valid, of mounted] by (simp add: mounted_state)
  have e2: "elements (commit (Draw rectA) (commit (Draw lineA) mounted)) = [lineA, rectA]"
    using commit_Draw(5)[OF shapes_valid(1), of "commit (Draw lineA) mounted"] e1 by simp
  have e3: "elements (commit (Draw circleA) (commit (Draw rectA) (commit (Draw lineA) mounted)))
      = [lineA, rectA, circleA]"
    using commit_Draw(5)[OF shapes_valid(2), of "commit (Draw rectA) (commit (Draw lineA) mounted)"]
      e2 by simp
  have r: "run threeShapes mounted =
      commit (Draw circleA) (commit (Draw rectA) (commit (Draw lineA) mounted))"
    by (simp only: threeShapes_def run.simps)
  show "elements (run threeShapes mounted) = [lineA, rectA, circleA]"
    unfolding r by (rule e3)
  have "snapshots mounted threeShapes =
      [elements mounted, elements (commit (Draw lineA) mounted),
       elements (commit (Draw rectA) (commit (Draw lineA) mounted))]"
    by (simp only: threeShapes_def snapshots.simps snapshotOf.simps)
  then have d: "snapshots mounted threeShapes = [[], [lineA], [lineA, rectA]]"
    by (simp only: e1 e2 mounted_state)
  have n: "length threeShapes = 3" by (simp add: threeShapes_def)
  note H = fresh_history[OF mounted_fresh w]
  show h: "history (run threeShapes mounted) = [[], [], [lineA], [lineA, rectA]]"
    unfolding H(1) d n by simp
  show "historyIndex (run threeShapes mounted) = 4" unfolding H(2) h by simp
  show "redoStack (run threeShapes mounted) = []" by (rule H(3))
qed

lemma undone_state:
  "elements undone = [lineA]" "redoStack undone = [[lineA, rectA, circleA]]"
  "history undone = [[], [], [lineA], [lineA, rectA]]" "historyIndex undone = 3"
proof -
  let ?r = "run threeShapes mounted"
  have i: "historyIndex ?r = Suc (Suc 2)" by (simp add: three_drawn)
  have l: "2 < length (history ?r)" by (simp add: three_drawn)
  have p: "0 < historyIndex ?r" by (simp add: three_drawn)
  show "elements undone = [lineA]"
    unfolding undone_def using undo_elements[OF i l] by (simp add: three_drawn)
  show "redoStack undone = [[lineA, rectA, circleA]]"
    unfolding undone_def using undo_push(1)[OF p] by (simp add: three_drawn)
  show "history undone = [[], [], [lineA], [lineA, rectA]]"
    unfolding undone_def using undo_push(3)[OF p] by (simp add: three_drawn)
  show "historyIndex undone = 3"
    unfolding undone_def using undo_push(2)[OF p] by (simp add: three_drawn)
qed

section \<open>The path of a stroke in progress\<close>

lemma path_start:
  assumes "tool s = pen_tool \<or> tool s = eraser_tool"
  shows "handleStart e now s =
     (if (isMouseEvent e \<and> button e = 1) \<or> (isMouseEvent e \<and> shiftKey e)
      then s\<lparr>isPanning := True, lastMousePos := getPointerPos e s\<rparr>
      else if isMouseEvent e \<and> button e \<noteq> 0 then s
      else s\<lparr>isDrawing := True,
             currentElement := Some (newPathElement now (worldPosOf (getPointerPos e s) s) s)\<rparr>)"
proof -
  have "tool s \<noteq> pan_tool" "tool s \<noteq> select_tool" "tool s \<noteq> text_tool"
    using assms by auto
  then show ?thesis using assms by (simp add: handleStart_def beginDrawing_def Let_def)
qed

lemma move_pencil:
  assumes "\<not> isPanning s" "\<not> isDragging s" "isDrawing s"
    and "currentElement s = Some cur" "type_el cur = pencil" "points cur = Some ps"
  shows "handleMove e s =
     s\<lparr>currentElement := Some (cur\<lparr>points := Some (ps @ [worldPosOf (getPointerPos e s) s])\<rparr>)\<rparr>"
  using assms by (simp add: handleMove_def Let_def)

lemma move_eraser:
  assumes "\<not> isPanning s" "\<not> isDragging s" "isDrawing s"
    and "currentElement s = Some cur" "type_el cur = eraser" "\<not> hasEnd cur"
  shows "handleMove e s = s"
  using assms by (simp add: handleMove_def Let_def)

lemma eraser_path_stuck:
  assumes "\<not> isPanning s" "\<not> isDragging s" "isDrawing s"
    and "currentElement s = Some cur" "type_el cur = eraser" "\<not> hasEnd cur"
  shows "moves es s = s"
  by (induction es) (simp_all add: move_eraser[OF assms])

lemma dpr_currentElement: "dpr (s\<lparr>currentElement := c\<rparr>) = dpr s"
  by (simp add: dpr_def)

lemma getPointerPos_currentElement:
  "getPointerPos e (s\<lparr>currentElement := c\<rparr>) = getPointerPos e s"
  by (simp add: getPointerPos_def dpr_currentElement split: option.split)

lemma worldPos_currentElement:
  "worldPosOf (getPointerPos e (s\<lparr>currentElement := c\<rparr>)) (s\<lparr>currentElement := c\<rparr>) =
   worldPosOf (getPointerPos e s) s"
  by (simp add: worldPosOf_def getPointerPos_currentElement)

lemma pencil_path_grows:
  assumes "\<not> isPanning s" "\<not> isDragging s" "isDrawing s"
    and "currentElement s = Some cur" "type_el cur = pencil" "points cur = Some ps"
  shows "moves es s =
     s\<lparr>currentElement :=
         Some (cur\<lparr>points := Some (ps @ map (\<lambda>e. worldPosOf (getPointerPos e s) s) es)\<rparr>)\<rparr>"
  using assms
proof (induction es arbitrary: s cur ps)
  case Nil
  then show ?case by simp
next
  case (Cons e es)
  let ?p = "worldPosOf (getPointerPos e s) s"
  let ?c = "cur\<lparr>points := Some (ps @ [?p])\<rparr>"
  let ?t = "s\<lparr>currentElement := Some ?c\<rparr>"
  have m: "handleMove e s = ?t" by (rule move_pencil[OF Cons.prems])
  have pre: "\<not> isPanning ?t" "\<not> isDragging ?t" "isDrawing ?t"
    "currentElement ?t = Some ?c" "type_el ?c = pencil" "points ?c = Some (ps @ [?p])"
    using Cons.prems by simp_all
  show ?case using Cons.IH[OF pre] by (simp add: m worldPos_currentElement)
qed

lemma click_world:
  "canvasRect s = Some (0, 0) \<Longrightarrow> devicePixelRatio s = 1 \<Longrightarrow>
   transform s = \<lparr>scale = 1, offset = \<lparr>x_pt = 0, y_pt = 0\<rparr>\<rparr> \<Longrightarrow>
   worldPosOf (getPointerPos (MouseEvent b sh cx cy) s) s = \<lparr>x_pt = cx, y_pt = cy\<rparr>"
  by (simp add: worldPosOf_def getPointerPos_def screenToWorld_def dpr_def)

lemma eraserStarted_eq:
  "eraserStarted = mounted\<lparr>tool := eraser_tool, isDrawing := True, currentElement := Some eraserDot\<rparr>"
proof -
  let ?s = "mounted\<lparr>tool := eraser_tool\<rparr>"
  have w: "worldPosOf (getPointerPos click ?s) ?s = \<lparr>x_pt = 10, y_pt = 10\<rparr>"
    unfolding click_def by (rule click_world) (simp_all add: mounted_state)
  have "newPathElement ''1'' \<lparr>x_pt = 10, y_pt = 10\<rparr> ?s = eraserDot"
    by (simp add: newPathElement_def eraserDot_def mounted_state)
  then show ?thesis
    unfolding eraserStarted_def by (simp add: path_start w) (simp add: click_def isMouseEvent_def)
qed

lemma penStarted_eq:
  "penStarted = mounted\<lparr>isDrawing := True, currentElement := Some penDot\<rparr>"
proof -
  have w: "worldPosOf (getPointerPos click mounted) mounted = \<lparr>x_pt = 10, y_pt = 10\<rparr>"
    unfolding click_def by (rule click_world) (simp_all add: mounted_state)
  have "newPathElement ''1'' \<lparr>x_pt = 10, y_pt = 10\<rparr> mounted = penDot"
    by (simp add: newPathElement_def penDot_def mounted_state)
  then show ?thesis
    unfolding penStarted_def by (simp add: path_start w mounted_state) (simp add: click_def isMouseEvent_def)
qed

lemma eraserMoved_eq: "eraserMoved = eraserStarted"
  unfolding eraserMoved_def
  by (rule move_eraser[where cur = eraserDot])
    (simp_all add: eraserStarted_eq mounted_state eraserDot_def hasEnd_def)

lemma penMoved_points:
  "map_option points (currentElement penMoved) =
     Some (Some [\<lparr>x_pt = 10, y_pt = 10\<rparr>, \<lparr>x_pt = 60, y_pt = 70\<rparr>])"
proof -
  have w: "worldPosOf (getPointerPos (MouseEvent 0 False 60 70) penStarted) penStarted
       = \<lparr>x_pt = 60, y_pt = 70\<rparr>"
    by (rule click_world) (simp_all add: penStarted_eq mounted_state)
  have "handleMove (MouseEvent 0 False 60 70) penStarted =
      penStarted\<lparr>currentElement := Some (penDot\<lparr>points := Some ([\<lparr>x_pt = 10, y_pt = 10\<rparr>] @
        [worldPosOf (getPointerPos (MouseEvent 0 False 60 70) penStarted) penStarted])\<rparr>)\<rparr>"
    by (rule move_pencil) (simp_all add: penStarted_eq mounted_state penDot_def)
  then show ?thesis unfolding penMoved_def w by simp
qed

lemma eraserDot_invalid: "\<not> isValid eraserDot"
  by (simp add: isValid_def eraserDot_def isPath_def hasEnd_def)

section \<open>Hit testing\<close>

lemma sqrt_100: "sqrt 100 = 10"
  by (simp add: real_sqrt_unique)

lemma circle_skipped:
  "detailedHit 10 11 circleA 5" "outsideBounds 10 11 (getElementBounds circleA) 5"
  by (simp_all add: detailedHit_def outsideBounds_def getElementBounds_def circleA_def
      isPath_def hasEnd_def Let_def sqrt_100)

lemma rect_hit:
  "detailedHit 10 11 rectA 5" "\<not> outsideBounds 10 11 (getElementBounds rectA) 5"
  by (simp_all add: detailedHit_def outsideBounds_def insideBounds_def getElementBounds_def
      rectA_def isPath_def hasEnd_def)

lemma hitLoop_step:
  "hitLoop wx wy els th (Suc i) =
     (if hits wx wy th (els ! i) then Some (els ! i) else hitLoop wx wy els th i)"
  by (simp add: hits_def Let_def)

lemma hitLoop_None: "hitLoop wx wy els th n = None \<longleftrightarrow> (\<forall>j<n. \<not> hits wx wy th (els ! j))"
proof (induction n)
  case 0
  then show ?case by simp
next
  case (Suc n)
  then show ?case by (simp only: hitLoop_step) (auto simp: less_Suc_eq)
qed

lemma hitLoop_Some:
  "hitLoop wx wy els th n = Some el \<Longrightarrow>
     \<exists>i<n. els ! i = el \<and> hits wx wy th el \<and> (\<forall>j. i < j \<and> j < n \<longrightarrow> \<not> hits wx wy th (els ! j))"
proof (induction n)
  case 0
  then show ?case by simp
next
  case (Suc n)
  show ?case
  proof (cases "hits wx wy th (els ! n)")
    case True
    then have "el = els ! n" using Suc.prems by (simp only: hitLoop_step) simp
    then show ?thesis using True by auto
  next
    case False
    then have "hitLoop wx wy els th n = Some el" using Suc.prems by (simp only: hitLoop_step) simp
    from Suc.IH[OF this] obtain i where i: "i < n" "els ! i = el" "hits wx wy th el"
      "\<forall>j. i < j \<and> j < n \<longrightarrow> \<not> hits wx wy th (els ! j)" by blast
    then have "\<forall>j. i < j \<and> j < Suc n \<longrightarrow> \<not> hits wx wy th (els ! j)"
      using False by (auto simp: less_Suc_eq)
    with i show ?thesis by (intro exI[of _ i]) simp
  qed
qed

lemma hit_is_topmost:
  "getElementAtPosition wx wy els th = Some el \<Longrightarrow>
     \<exists>i<length els. els ! i = el \<and> hits wx wy th el \<and>
       (\<forall>j. i < j \<and> j < length els \<longrightarrow> \<not> hits wx wy th (els ! j))"
  unfolding getElementAtPosition_def by (rule hitLoop_Some)

lemma no_hit: "getElementAtPosition wx wy els th = None \<longleftrightarrow> (\<forall>el\<in>set els. \<not> hits wx wy th el)"
  unfolding getElementAtPosition_def hitLoop_None by (metis in_set_conv_nth)

lemma later_element_wins:
  assumes "i < j" "j < length els" "hits wx wy th (els ! i)" "hits wx wy th (els ! j)"
  shows "\<exists>k. j \<le> k \<and> k < length els \<and> getElementAtPosition wx wy els th = Some (els ! k)"
proof (cases "getElementAtPosition wx wy els th")
  case None
  then show ?thesis using assms(2,4) no_hit[of wx wy els th] by auto
next
  case (Some el)
  from hit_is_topmost[OF this] obtain k where k: "k < length els" "els ! k = el"
    "\<forall>j. k < j \<and> j < length els \<longrightarrow> \<not> hits wx wy th (els ! j)" by blast
  then have "j \<le> k" using assms(2,4) by (meson not_le)
  then show ?thesis using k Some by auto
qed

section \<open>The snapshot taken at the end of a drag\<close>

text \<open>
  A line is selected at (5, 5) and dragged by (10, 0). \<open>handleMove\<close> moves the
  element in the document; \<open>handleEnd\<close> then takes the snapshot, which is the
  document after the move. The document before the move is not in the history.
\<close>

lemma selectReady_eq:
  "selectReady =
     mounted\<lparr>elements := [lineA], history := [[], []], historyIndex := 2, undoCount := 1,
             tool := select_tool, saveRequests := 1\<rparr>"
  by (simp add: selectReady_def handleEnd_def lineA_valid saveToHistory_def debouncedSave_def
      Let_def mounted_def initializeHistory_def newWhiteboard_def)

lemma lineA_hit: "getElementAtPosition 5 5 [lineA] 5 = Some lineA"
proof -
  have d: "pointToLineDistance 5 5 0 0 10 10 = 0"
    by (simp add: pointToLineDistance_def Let_def)
  have "hits 5 5 5 lineA"
    by (simp add: hits_def outsideBounds_def getElementBounds_def detailedHit_def lineA_def
        isPath_def hasEnd_def d)
  then show ?thesis by (simp add: getElementAtPosition_def hitLoop_step del: hitLoop.simps(2))
qed

lemma dragStarted_eq:
  "dragStarted =
     selectReady\<lparr>selectedElementId := Some ''1'', isDragging := True,
                 dragStartPos := \<lparr>x_pt = 5, y_pt = 5\<rparr>,
                 dragElementStartPos := captureDragStart lineA\<rparr>"
proof -
  have w: "worldPosOf (getPointerPos (MouseEvent 0 False 5 5) selectReady) selectReady
       = \<lparr>x_pt = 5, y_pt = 5\<rparr>"
    by (rule click_world) (simp_all add: selectReady_eq mounted_state)
  have f: "find (\<lambda>el. id_el el = id_el lineA) [lineA] = Some lineA" by simp
  have s: "tool selectReady = select_tool" "elements selectReady = [lineA]"
    "scale (transform selectReady) = 1"
    by (simp_all add: selectReady_eq mounted_state)
  have i: "id_el lineA = ''1''" by (simp add: lineA_def)
  show ?thesis
    unfolding dragStarted_def handleStart_def Let_def w
    by (simp add: s isMouseEvent_def lineA_hit f i)
qed

lemma dragged_elements: "elements dragged = [lineMoved]"
proof -
  have w: "worldPosOf (getPointerPos (MouseEvent 0 False 15 5) dragStarted) dragStarted
       = \<lparr>x_pt = 15, y_pt = 5\<rparr>"
    by (rule click_world) (simp_all add: dragStarted_eq selectReady_eq mounted_state)
  have m: "dragTo (captureDragStart lineA) 10 0 lineA = lineMoved"
    by (simp add: dragTo_def captureDragStart_def lineA_def lineMoved_def hasEnd_def Let_def)
  have s: "\<not> isPanning dragStarted" "isDragging dragStarted" "hasSelection dragStarted"
    "selectedElementId dragStarted = Some ''1''" "elements dragStarted = [lineA]"
    "dragStartPos dragStarted = \<lparr>x_pt = 5, y_pt = 5\<rparr>"
    "dragElementStartPos dragStarted = captureDragStart lineA"
    by (simp_all add: dragStarted_eq selectReady_eq mounted_state hasSelection_def)
  have i: "id_el lineA = ''1''" by (simp add: lineA_def)
  show ?thesis
    unfolding dragged_def handleMove_def Let_def w
    by (simp add: s i m)
qed

lemma drag_snapshot_after_move:
  "elements selectReady = [lineA] \<and> elements dragged = [lineMoved] \<and>
   lineMoved \<noteq> lineA \<and>
   elements (handleEnd dragged) = [lineMoved] \<and>
   history (handleEnd dragged) = [[], [], [lineMoved]]"
proof -
  have s: "\<not> isPanning dragged" "isDragging dragged" "history dragged = [[], []]"
    "historyIndex dragged = 2"
    by (simp_all add: dragged_def handleMove_def Let_def dragStarted_eq selectReady_eq
        mounted_state hasSelection_def)
  have n: "lineMoved \<noteq> lineA" by (simp add: lineMoved_def lineA_def)
  have e: "elements (handleEnd dragged) = [lineMoved]"
    by (simp add: handleEnd_def s debouncedSave_def dragged_elements)
  have h: "history (handleEnd dragged) = [[], [], [lineMoved]]"
    by (simp add: handleEnd_def s debouncedSave_def save_pushed pushed_def dragged_elements)
  show ?thesis using n e h dragged_elements by (simp add: selectReady_eq)
qed

section \<open>What a single undo restores\<close>

text \<open>
  After three drawings one call of \<open>handleUndo\<close> yields the document that holds
  the first element only: the snapshot on top of the history, the document before the
  third drawing, is passed over.
\<close>

lemma one_undo_after_three_drawings:
  "elements (run threeShapes mounted) = [lineA, rectA, circleA] \<and>
   elements (handleUndo (run threeShapes mounted)) = [lineA]"
  using three_drawn(1) undone_state(1) by (simp add: undone_def)

section \<open>The rejection test and the detailed test\<close>

text \<open>
  For every element that is not a circle, and a threshold that is not negative, a point
  that passes the detailed test is inside the widened bounding box: there the rejection
  test changes no result.
\<close>

lemma abs_le_distance: "\<bar>a\<bar> \<le> sqrt (a\<^sup>2 + b\<^sup>2)" "\<bar>b\<bar> \<le> sqrt (a\<^sup>2 + b\<^sup>2)"
  by (simp_all add: real_le_rsqrt)

lemma growBounds_mono:
  "minX (foldl growBounds b ps) \<le> minX b \<and> minY (foldl growBounds b ps) \<le> minY b \<and>
   maxX b \<le> maxX (foldl growBounds b ps) \<and> maxY b \<le> maxY (foldl growBounds b ps)"
proof (induction ps arbitrary: b)
  case Nil
  then show ?case by simp
next
  case (Cons p ps)
  have "minX (growBounds b p) \<le> minX b" "minY (growBounds b p) \<le> minY b"
    "maxX b \<le> maxX (growBounds b p)" "maxY b \<le> maxY (growBounds b p)"
    by (simp_all add: growBounds_def)
  then show ?case using Cons.IH[of "growBounds b p"] by fastforce
qed

lemma growBounds_covers:
  "p \<in> set ps \<Longrightarrow>
     minX (foldl growBounds b ps) \<le> x_pt p \<and> x_pt p \<le> maxX (foldl growBounds b ps) \<and>
     minY (foldl growBounds b ps) \<le> y_pt p \<and> y_pt p \<le> maxY (foldl growBounds b ps)"
proof (induction ps arbitrary: b)
  case Nil
  then show ?case by simp
next
  case (Cons q ps)
  show ?case
  proof (cases "p = q")
    case True
    have "minX (growBounds b q) \<le> x_pt q" "x_pt q \<le> maxX (growBounds b q)"
      "minY (growBounds b q) \<le> y_pt q" "y_pt q \<le> maxY (growBounds b q)"
      by (simp_all add: growBounds_def)
    then show ?thesis using growBounds_mono[of "growBounds b q" ps] True by fastforce
  next
    case False
    then have "p \<in> set ps" using Cons.prems by simp
    from Cons.IH[OF this, of "growBounds b q"] show ?thesis by simp
  qed
qed

lemma near_means_inside:
  assumes "sqrt ((wx - a)\<^sup>2 + (wy - b)\<^sup>2) \<le> th"
    and "minX B \<le> a" "a \<le> maxX B" "minY B \<le> b" "b \<le> maxY B"
  shows "\<not> outsideBounds wx wy B th"
proof -
  have "\<bar>wx - a\<bar> \<le> sqrt ((wx - a)\<^sup>2 + (wy - b)\<^sup>2)"
    and "\<bar>wy - b\<bar> \<le> sqrt ((wx - a)\<^sup>2 + (wy - b)\<^sup>2)"
    by (rule abs_le_distance)+
  then have "\<bar>wx - a\<bar> \<le> th" and "\<bar>wy - b\<bar> \<le> th"
    using assms(1) by linarith+
  then show ?thesis using assms(2-5) unfolding outsideBounds_def by linarith
qed

lemma inside_not_outside:
  "insideBounds wx wy B \<Longrightarrow> 0 \<le> th \<Longrightarrow> \<not> outsideBounds wx wy B th"
  by (auto simp: insideBounds_def outsideBounds_def)

lemma convex_between:
  fixes a b t :: real
  assumes "0 \<le> t" "t \<le> 1"
  shows "min a b \<le> a + t * (b - a) \<and> a + t * (b - a) \<le> max a b"
proof -
  define u where "u = t * (b - a)"
  show ?thesis
  proof (cases "a \<le> b")
    case True
    have "0 \<le> u" unfolding u_def using True assms(1) by simp
    moreover have "u \<le> b - a"
      unfolding u_def using mult_right_mono[of t 1 "b - a"] True assms(2) by simp
    ultimately show ?thesis unfolding u_def[symmetric] using True by (simp add: min_def max_def)
  next
    case False
    have "u \<le> 0" unfolding u_def using False assms(1) by (simp add: mult_nonneg_nonpos)
    moreover have "b - a \<le> u"
      unfolding u_def using mult_right_mono_neg[of t 1 "b - a"] False assms(2) by simp
    ultimately show ?thesis unfolding u_def[symmetric] using False by (simp add: min_def max_def)
  qed
qed

lemma segment_distance_inside:
  assumes "pointToLineDistance px py x1 y1 x2 y2 \<le> th"
  shows "\<not> outsideBounds px py
           \<lparr>minX = min x1 x2, minY = min y1 y2, maxX = max x1 x2, maxY = max y1 y2\<rparr> th"
proof -
  define lenSq where "lenSq = (x2 - x1) * (x2 - x1) + (y2 - y1) * (y2 - y1)"
  define param where
    "param = (if lenSq \<noteq> 0 then ((px - x1) * (x2 - x1) + (py - y1) * (y2 - y1)) / lenSq else - 1)"
  define xx where "xx = (if param < 0 then x1 else if param > 1 then x2 else x1 + param * (x2 - x1))"
  define yy where "yy = (if param < 0 then y1 else if param > 1 then y2 else y1 + param * (y2 - y1))"
  have d: "pointToLineDistance px py x1 y1 x2 y2 = sqrt ((px - xx)\<^sup>2 + (py - yy)\<^sup>2)"
    by (simp add: pointToLineDistance_def Let_def lenSq_def param_def xx_def yy_def
        power2_eq_square)
  have x: "min x1 x2 \<le> xx \<and> xx \<le> max x1 x2"
    using convex_between[of param x1 x2] by (auto simp: xx_def)
  have y: "min y1 y2 \<le> yy \<and> yy \<le> max y1 y2"
    using convex_between[of param y1 y2] by (auto simp: yy_def)
  show ?thesis
    by (rule near_means_inside[where a = xx and b = yy]) (use assms d x y in simp_all)
qed

lemma path_bounds:
  assumes "isPath el" "points el = Some ps" "p \<in> set ps"
  shows "minX (getElementBounds el) \<le> x_pt p \<and> x_pt p \<le> maxX (getElementBounds el) \<and>
         minY (getElementBounds el) \<le> y_pt p \<and> y_pt p \<le> maxY (getElementBounds el)"
proof -
  obtain p0 rest where ps: "ps = p0 # rest" using assms(3) by (cases ps) auto
  have "getElementBounds el =
      foldl growBounds \<lparr>minX = x_pt p0, minY = y_pt p0, maxX = x_pt p0, maxY = y_pt p0\<rparr> ps"
    using assms(1,2) by (simp add: getElementBounds_def ps)
  then show ?thesis using growBounds_covers[OF assms(3)] by simp
qed

lemma corner_bounds:
  assumes "\<not> isPath el" "endX el = Some ex" "endY el = Some ey"
  shows "getElementBounds el =
      \<lparr>minX = min (x_el el) ex, minY = min (y_el el) ey,
       maxX = max (x_el el) ex, maxY = max (y_el el) ey\<rparr>"
  using assms by (simp add: getElementBounds_def)

lemma detailed_within_bounds:
  assumes "0 \<le> th" "type_el el \<noteq> circle" "detailedHit wx wy el th"
  shows "\<not> outsideBounds wx wy (getElementBounds el) th"
proof -
  consider (path) "isPath el" "points el \<noteq> None"
    | (seg) "\<not> isPath el" "hasEnd el" "type_el el = line \<or> type_el el = arrow"
    | (box) "insideBounds wx wy (getElementBounds el)"
    | (none) "isPath el" "points el = None"
    using assms(2,3) by (auto simp: detailedHit_def isPath_def split: if_splits)
  then show ?thesis
  proof cases
    case path
    then obtain ps where ps: "points el = Some ps" by auto
    then have "list_ex (\<lambda>point. sqrt ((wx - x_pt point)\<^sup>2 + (wy - y_pt point)\<^sup>2) \<le> th) ps"
      using assms(3) path by (simp add: detailedHit_def)
    then obtain p where p: "p \<in> set ps" "sqrt ((wx - x_pt p)\<^sup>2 + (wy - y_pt p)\<^sup>2) \<le> th"
      by (auto simp: list_ex_iff)
    let ?B = "getElementBounds el"
    from path_bounds[OF path(1) ps p(1)]
    show ?thesis by (intro near_means_inside[OF p(2)]) simp_all
  next
    case seg
    then obtain ex ey where e: "endX el = Some ex" "endY el = Some ey"
      by (auto simp: hasEnd_def)
    have "pointToLineDistance wx wy (x_el el) (y_el el) ex ey \<le> th"
      using assms(3) seg e by (auto simp: detailedHit_def split: if_splits)
    from segment_distance_inside[OF this] show ?thesis unfolding corner_bounds[OF seg(1) e] .
  next
    case box
    then show ?thesis using assms(1) by (rule inside_not_outside)
  next
    case none
    then show ?thesis using assms(3) by (auto simp: detailedHit_def isPath_def split: if_splits)
  qed
qed

lemma hits_without_circles:
  "0 \<le> th \<Longrightarrow> type_el el \<noteq> circle \<Longrightarrow> hits wx wy th el \<longleftrightarrow> detailedHit wx wy el th"
  using detailed_within_bounds by (auto simp: hits_def)

lemma topmost_without_circles:
  assumes "0 \<le> th" "\<forall>el\<in>set els. type_el el \<noteq> circle"
    and "i < j" "j < length els"
    and "detailedHit wx wy (els ! i) th" "detailedHit wx wy (els ! j) th"
  shows "\<exists>k. j \<le> k \<and> k < length els \<and>
             getElementAtPosition wx wy els th = Some (els ! k) \<and>
             detailedHit wx wy (els ! k) th"
proof -
  have c: "\<And>n. n < length els \<Longrightarrow> type_el (els ! n) \<noteq> circle"
    using assms(2) by simp
  have "hits wx wy th (els ! i)" "hits wx wy th (els ! j)"
    using assms c by (simp_all add: hits_without_circles)
  from later_element_wins[OF assms(3,4) this] obtain k where
    k: "j \<le> k" "k < length els" "getElementAtPosition wx wy els th = Some (els ! k)" by blast
  from hit_is_topmost[OF k(3)] have "hits wx wy th (els ! k)" by blast
  then have "detailedHit wx wy (els ! k) th" by (simp add: hits_def)
  with k show ?thesis by blast
qed

lemma no_match_no_hit:
  "\<forall>el\<in>set els. \<not> detailedHit wx wy el th \<Longrightarrow> getElementAtPosition wx wy els th = None"
  by (simp add: no_hit hits_def)

section \<open>Undo from a document that was loaded\<close>

text \<open>
  The stored document is loaded after the history was initialised with the empty
  document. One drawing and one undo then yield the empty document, not the loaded one.
\<close>

lemma undo_from_loaded_document:
  "elements loaded = [lineA] \<and> elements loadedDrawn = [lineA, rectA] \<and>
   elements (handleUndo loadedDrawn) = []"
proof -
  have l: "elements loaded = [lineA]" "history loaded = [[]]" "historyIndex loaded = 1"
    by (simp_all add: loaded_def loadStored_def mounted_state)
  have e: "elements loadedDrawn = [lineA, rectA]"
    unfolding loadedDrawn_def using commit_Draw(5)[OF shapes_valid(1), of loaded] l by simp
  have "history loadedDrawn = history (saveToHistory loaded)"
    "historyIndex loadedDrawn = historyIndex (saveToHistory loaded)"
    unfolding loadedDrawn_def by (rule commit_Draw[OF shapes_valid(1)])+
  then have h: "history loadedDrawn = [[], [lineA]]" "historyIndex loadedDrawn = Suc (Suc 0)"
    using l by (simp_all add: save_pushed pushed_def)
  have "elements (handleUndo loadedDrawn) = history loadedDrawn ! 0"
    by (rule undo_elements[OF h(2)]) (simp add: h(1))
  then show ?thesis using l e h by simp
qed

section \<open>Rounds of drawing, dragging and deleting\<close>

text \<open>
  The mutations here go through the handlers with their pointer events. In a state with
  the view of the freshly mounted component and a document of one element, a drag that
  starts on the element moves it by the way of the pointer and leaves it selected.
\<close>

lemma atOrigin_world:
  "atOrigin s \<Longrightarrow> worldPosOf (getPointerPos (MouseEvent b sh cx cy) s) s = \<lparr>x_pt = cx, y_pt = cy\<rparr>"
  by (rule click_world) (simp_all add: atOrigin_def)

lemma atOrigin_hit:
  "atOrigin s \<Longrightarrow>
     pointerHit (MouseEvent 0 False x y) s = getElementAtPosition x y (elements s) 5"
  by (simp add: pointerHit_def atOrigin_world) (simp add: atOrigin_def)

lemma atOrigin_Draw:
  assumes "atOrigin s" "isValid el"
  shows "atOrigin (commit (Draw el) s)"
    and "selectedElementId (commit (Draw el) s) = selectedElementId s"
  using assms
  by (simp_all add: atOrigin_def handleEnd_def debouncedSave_def saveToHistory_def Let_def)

lemma atOrigin_Delete:
  assumes "atOrigin s" "hasSelection s"
  shows "atOrigin (commit Delete s)"
  using assms
  by (simp add: atOrigin_def handleDelete_def debouncedSave_def saveToHistory_def Let_def)

lemma select_start_eq:
  assumes "tool s = select_tool" "pointerHit (MouseEvent 0 False x y) s = Some h"
    and "find (\<lambda>el. id_el el = id_el h) (elements s) = Some el"
  shows "handleStart (MouseEvent 0 False x y) now s =
     s\<lparr>selectedElementId := Some (id_el h), isDragging := True,
       dragStartPos := worldPosOf (getPointerPos (MouseEvent 0 False x y) s) s,
       dragElementStartPos := captureDragStart el\<rparr>"
  using assms by (simp add: handleStart_def pointerHit_def Let_def isMouseEvent_def)

lemma drag_single:
  assumes "atOrigin s" "elements s = [el]" "getElementAtPosition x1 y1 [el] 5 = Some el"
    and "id_el el \<noteq> []"
  shows "commits (Drag x1 y1 x2 y2) s"
    and "elements (commit (Drag x1 y1 x2 y2) s) =
           [dragTo (captureDragStart el) (x2 - x1) (y2 - y1) el]"
    and "selectedElementId (commit (Drag x1 y1 x2 y2) s) = Some (id_el el)"
    and "atOrigin (commit (Drag x1 y1 x2 y2) s)"
proof -
  let ?s0 = "setTool select_tool s"
  let ?e1 = "MouseEvent 0 False x1 y1"
  let ?e2 = "MouseEvent 0 False x2 y2"
  have np: "\<not> isPanning s" using assms(1) by (simp add: atOrigin_def)
  have hit: "pointerHit ?e1 s = Some el" using assms(1-3) by (simp add: atOrigin_hit)
  show cm: "commits (Drag x1 y1 x2 y2) s" using np hit by simp
  have o0: "atOrigin ?s0" using assms(1) by (simp add: atOrigin_def setTool_def)
  have hit0: "pointerHit ?e1 ?s0 = Some el" using hit by (simp only: pointerHit_setTool)
  have f: "find (\<lambda>e. id_el e = id_el el) (elements ?s0) = Some el"
    using assms(2) by (simp add: setTool_def)
  have t0: "tool ?s0 = select_tool" by (simp add: setTool_def)
  define s1 where "s1 = ?s0\<lparr>selectedElementId := Some (id_el el), isDragging := True,
       dragStartPos := \<lparr>x_pt = x1, y_pt = y1\<rparr>, dragElementStartPos := captureDragStart el\<rparr>"
  have st: "handleStart ?e1 [] ?s0 = s1"
    unfolding s1_def using select_start_eq[OF t0 hit0 f, of "[]"] atOrigin_world[OF o0] by simp
  have o1: "atOrigin s1" using o0 by (simp add: atOrigin_def s1_def)
  have w2: "worldPosOf (getPointerPos ?e2 s1) s1 = \<lparr>x_pt = x2, y_pt = y2\<rparr>"
    by (rule atOrigin_world[OF o1])
  have f1: "\<not> isPanning s1" "isDragging s1" "hasSelection s1"
    "selectedElementId s1 = Some (id_el el)" "elements s1 = [el]"
    "dragStartPos s1 = \<lparr>x_pt = x1, y_pt = y1\<rparr>"
    "dragElementStartPos s1 = captureDragStart el"
    using np assms(2,4) by (simp_all add: s1_def setTool_def hasSelection_def)
  have mv: "elements (handleMove ?e2 s1) = [dragTo (captureDragStart el) (x2 - x1) (y2 - y1) el]"
    unfolding handleMove_def Let_def w2 by (simp add: f1)
  have p1: "\<not> isPanning s1" by (rule f1(1))
  note m = move_fields[OF p1, of ?e2]
  have p2: "\<not> isPanning (handleMove ?e2 s1)" "isDragging (handleMove ?e2 s1)"
    using m(5,6) f1(1,2) by simp_all
  have c: "commit (Drag x1 y1 x2 y2) s =
      debouncedSave (saveToHistory ((handleMove ?e2 s1)\<lparr>isDragging := False\<rparr>))"
    using end_of_drag[OF p2] st by simp
  show "elements (commit (Drag x1 y1 x2 y2) s) =
           [dragTo (captureDragStart el) (x2 - x1) (y2 - y1) el]"
    unfolding c using mv by (simp add: debouncedSave_def)
  obtain h where "pointerHit ?e1 s = Some h" "h = el" using hit by simp
  from commit_Drag(5)[OF np this(1), of x2 y2] this(2)
  show "selectedElementId (commit (Drag x1 y1 x2 y2) s) = Some (id_el el)" by simp
  have "canvasRect (handleMove ?e2 s1) = canvasRect s1"
    "devicePixelRatio (handleMove ?e2 s1) = devicePixelRatio s1"
    "transform (handleMove ?e2 s1) = transform s1"
    using p1 by (simp_all add: handleMove_def Let_def split: option.split)
  then have "atOrigin (handleMove ?e2 s1)" using o1 p2(1) by (simp add: atOrigin_def)
  then show "atOrigin (commit (Drag x1 y1 x2 y2) s)"
    unfolding c by (simp add: atOrigin_def debouncedSave_def saveToHistory_def Let_def)
qed

text \<open>The line with the identifier \<open>i\<close>: it is hit at (5, 5), and at (15, 5) once dragged.\<close>

lemma lineAt_valid: "isValid (lineAt i)"
  by (simp add: isValid_def lineAt_def lineA_def isPath_def hasEnd_def)

lemma stamp_id: "id_el (lineAt (stamp n)) \<noteq> []"
  by (simp add: lineAt_def stamp_def)

lemma lineAt_hit: "getElementAtPosition 5 5 [lineAt i] 5 = Some (lineAt i)"
proof -
  have d: "pointToLineDistance 5 5 0 0 10 10 = 0"
    by (simp add: pointToLineDistance_def Let_def)
  have "hits 5 5 5 (lineAt i)"
    by (simp add: hits_def outsideBounds_def getElementBounds_def detailedHit_def lineAt_def
        lineA_def isPath_def hasEnd_def d)
  then show ?thesis by (simp add: getElementAtPosition_def hitLoop_step del: hitLoop.simps(2))
qed

lemma lineMoved_hit:
  "getElementAtPosition 15 5 [lineMoved\<lparr>id_el := i\<rparr>] 5 = Some (lineMoved\<lparr>id_el := i\<rparr>)"
proof -
  have d: "pointToLineDistance 15 5 10 0 20 10 = 0"
    by (simp add: pointToLineDistance_def Let_def)
  have "hits 15 5 5 (lineMoved\<lparr>id_el := i\<rparr>)"
    by (simp add: hits_def outsideBounds_def getElementBounds_def detailedHit_def lineMoved_def
        lineA_def isPath_def hasEnd_def d)
  then show ?thesis by (simp add: getElementAtPosition_def hitLoop_step del: hitLoop.simps(2))
qed

lemma line_drags:
  "dragTo (captureDragStart (lineAt i)) 10 0 (lineAt i) = lineMoved\<lparr>id_el := i\<rparr>"
  "dragTo (captureDragStart (lineMoved\<lparr>id_el := i\<rparr>)) (- 10) 0 (lineMoved\<lparr>id_el := i\<rparr>) = lineAt i"
  by (simp_all add: dragTo_def captureDragStart_def lineAt_def lineA_def lineMoved_def hasEnd_def
      Let_def)

lemma line_ids: "id_el (lineAt i) = i" "id_el (lineMoved\<lparr>id_el := i\<rparr>) = i"
  by (simp_all add: lineAt_def)

text \<open>The Delete key on a document of one element that is selected.\<close>

lemma delete_single:
  assumes "atOrigin s" "elements s = [el]" "selectedElementId s = Some (id_el el)"
    and "id_el el \<noteq> []"
  shows "commits Delete s" and "elements (commit Delete s) = []" and "atOrigin (commit Delete s)"
proof -
  show c: "commits Delete s" using assms(3,4) by (simp add: hasSelection_def)
  then have h: "hasSelection s" by simp
  show "elements (commit Delete s) = []" using commit_Delete(4)[OF h] assms(2,3) by simp
  show "atOrigin (commit Delete s)" by (rule atOrigin_Delete[OF assms(1) h])
qed

text \<open>
  A round on the empty document: every mutation of it commits, and the document is empty
  again at its end.
\<close>

lemma roundOfThree_run:
  assumes "atOrigin s" "elements s = []" "i \<noteq> []"
  shows "allCommit s (roundOfThree i)" and "elements (run (roundOfThree i) s) = []"
    and "atOrigin (run (roundOfThree i) s)"
proof -
  let ?a = "commit (Draw (lineAt i)) s"
  let ?b = "commit (Drag 5 5 15 5) ?a"
  let ?c = "commit Delete ?b"
  have a: "atOrigin ?a" "elements ?a = [lineAt i]"
    using atOrigin_Draw(1)[OF assms(1) lineAt_valid] commit_Draw(5)[OF lineAt_valid[of i], of s]
      assms(2)
    by simp_all
  have i: "id_el (lineAt i) \<noteq> []" "id_el (lineMoved\<lparr>id_el := i\<rparr>) \<noteq> []"
    using assms(3) by (simp_all add: line_ids)
  note b = drag_single[OF a lineAt_hit i(1), of 15 5]
  have b2: "elements ?b = [lineMoved\<lparr>id_el := i\<rparr>]"
    "selectedElementId ?b = Some (id_el (lineMoved\<lparr>id_el := i\<rparr>))"
    using b(2,3) by (simp_all add: line_drags line_ids)
  note c = delete_single[OF b(4) b2 i(2)]
  have r: "run (roundOfThree i) s = ?c" by (simp only: roundOfThree_def run.simps)
  show "allCommit s (roundOfThree i)"
    unfolding roundOfThree_def using lineAt_valid b(1) c(1) by simp
  show "elements (run (roundOfThree i) s) = []" unfolding r by (rule c(2))
  show "atOrigin (run (roundOfThree i) s)" unfolding r by (rule c(3))
qed

lemma roundOfFour_run:
  assumes "atOrigin s" "elements s = []" "i \<noteq> []"
  shows "allCommit s (roundOfFour i)" and "elements (run (roundOfFour i) s) = []"
    and "atOrigin (run (roundOfFour i) s)"
proof -
  let ?a = "commit (Draw (lineAt i)) s"
  let ?b = "commit (Drag 5 5 15 5) ?a"
  let ?b' = "commit (Drag 15 5 5 5) ?b"
  let ?c = "commit Delete ?b'"
  have a: "atOrigin ?a" "elements ?a = [lineAt i]"
    using atOrigin_Draw(1)[OF assms(1) lineAt_valid] commit_Draw(5)[OF lineAt_valid[of i], of s]
      assms(2)
    by simp_all
  have i: "id_el (lineAt i) \<noteq> []" "id_el (lineMoved\<lparr>id_el := i\<rparr>) \<noteq> []"
    using assms(3) by (simp_all add: line_ids)
  note b = drag_single[OF a lineAt_hit i(1), of 15 5]
  have b2: "elements ?b = [lineMoved\<lparr>id_el := i\<rparr>]" using b(2) by (simp add: line_drags)
  note b' = drag_single[OF b(4) b2 lineMoved_hit i(2), of 5 5]
  have b3: "elements ?b' = [lineAt i]" "selectedElementId ?b' = Some (id_el (lineAt i))"
    using b'(2,3) by (simp_all add: line_drags line_ids)
  note c = delete_single[OF b'(4) b3 i(1)]
  have r: "run (roundOfFour i) s = ?c" by (simp only: roundOfFour_def run.simps)
  show "allCommit s (roundOfFour i)"
    unfolding roundOfFour_def using lineAt_valid b(1) b'(1) c(1) by simp
  show "elements (run (roundOfFour i) s) = []" unfolding r by (rule c(2))
  show "atOrigin (run (roundOfFour i) s)" unfolding r by (rule c(3))
qed

lemma stamp_nonempty: "stamp n \<noteq> []"
  by (simp add: stamp_def)

lemma rounds_run:
  assumes "atOrigin s" "elements s = []"
  shows "allCommit s (rounds ns) \<and> elements (run (rounds ns) s) = [] \<and>
         atOrigin (run (rounds ns) s)"
  using assms
proof (induction ns arbitrary: s)
  case Nil
  then show ?case by (simp add: rounds_def)
next
  case (Cons n ns)
  note r = roundOfThree_run[OF Cons.prems stamp_nonempty, of n]
  have e: "rounds (n # ns) = roundOfThree (stamp n) @ rounds ns" by (simp add: rounds_def)
  from Cons.IH[OF r(3) r(2)] r(1) show ?case
    unfolding e by (simp only: allCommit_append run_append)
qed

lemma rounds_length: "length (rounds ns) = 3 * length ns"
  by (induction ns) (simp_all add: rounds_def roundOfThree_def)

lemma mounted_atOrigin: "atOrigin mounted"
  by (simp add: atOrigin_def mounted_state)

text \<open>The run of sixty mutations: three rounds of ten mutations in all, then fifty more.\<close>

lemma tenMutations_run:
  "allCommit mounted tenMutations" "elements (run tenMutations mounted) = []"
  "atOrigin (run tenMutations mounted)" "length tenMutations = 10"
proof -
  note a = roundOfThree_run[OF mounted_atOrigin mounted_state(1) stamp_nonempty, of 0]
  note b = roundOfThree_run[OF a(3) a(2) stamp_nonempty, of 1]
  note c = roundOfFour_run[OF b(3) b(2) stamp_nonempty, of 2]
  show "allCommit mounted tenMutations"
    unfolding tenMutations_def using a(1) b(1) c(1) by (simp add: allCommit_append run_append)
  show "elements (run tenMutations mounted) = []"
    unfolding tenMutations_def using c(2) by (simp add: run_append)
  show "atOrigin (run tenMutations mounted)"
    unfolding tenMutations_def using c(3) by (simp add: run_append)
  show "length tenMutations = 10"
    by (simp add: tenMutations_def roundOfThree_def roundOfFour_def)
qed

lemma fiftyMutations_run:
  assumes "atOrigin s" "elements s = []"
  shows "allCommit s fiftyMutations" "length fiftyMutations = 50"
    "fiftyMutations ! 0 = Draw (lineAt (stamp 3))"
proof -
  note r = rounds_run[OF assms, of "[3..<19]"]
  let ?t = "run (rounds [3..<19]) s"
  let ?l = "lineAt (stamp 19)"
  have t: "atOrigin ?t" "elements ?t = []" using r by simp_all
  have a: "atOrigin (commit (Draw ?l) ?t)" "elements (commit (Draw ?l) ?t) = [?l]"
    using atOrigin_Draw(1)[OF t(1) lineAt_valid] commit_Draw(5)[OF lineAt_valid[of "stamp 19"], of ?t]
      t(2)
    by simp_all
  note b = drag_single[OF a lineAt_hit stamp_id, of 15 5]
  have "allCommit ?t [Draw ?l, Drag 5 5 15 5]" using lineAt_valid b(1) by simp
  then show "allCommit s fiftyMutations"
    unfolding fiftyMutations_def using r by (simp only: allCommit_append)
  show "length fiftyMutations = 50" by (simp add: fiftyMutations_def rounds_length)
  have "[3..<19] = 3 # [4..<19]" by (simp add: upt_conv_Cons)
  then have "rounds [3..<19] = roundOfThree (stamp 3) @ rounds [4..<19]"
    by (simp add: rounds_def)
  then show "fiftyMutations ! 0 = Draw (lineAt (stamp 3))"
    unfolding fiftyMutations_def by (simp add: roundOfThree_def)
qed

lemma sixtyMutations_run:
  "allCommit mounted sixtyMutations" "length sixtyMutations = 60"
  "sixtyMutations ! 10 = Draw (lineAt (stamp 3))" "take 10 sixtyMutations = tenMutations"
proof -
  note t = tenMutations_run
  note f = fiftyMutations_run[OF t(3) t(2)]
  show "allCommit mounted sixtyMutations"
    unfolding sixtyMutations_def using t(1) f(1) by (simp add: allCommit_append)
  show "length sixtyMutations = 60" by (simp add: sixtyMutations_def t(4) f(2))
  show "sixtyMutations ! 10 = Draw (lineAt (stamp 3))"
    by (simp add: sixtyMutations_def nth_append t(4) f(3))
  show "take 10 sixtyMutations = tenMutations" by (simp add: sixtyMutations_def t(4))
qed

text \<open>Sixty drawings commit, and the tenth of them adds an element.\<close>

lemma allCommit_Draws: "allCommit s (map (\<lambda>n. Draw (lineAt (stamp n))) ns)"
  by (induction ns arbitrary: s) (simp_all add: lineAt_valid)

lemma sixtyLines_run:
  "allCommit mounted sixtyLines" "length sixtyLines = 60" "adds (sixtyLines ! 9)"
  by (simp_all add: sixtyLines_def allCommit_Draws)

text \<open>The document and the history after a line and a rectangle were drawn.\<close>

lemma afterRect_state:
  "elements afterLine = [lineA]" "elements afterRect = [lineA, rectA]"
  "history afterRect = [[], [], [lineA]]" "historyIndex afterRect = 3"
  "redoStack afterRect = []"
proof -
  have w: "allCommit mounted [Draw lineA]" by (simp add: lineA_valid)
  have r: "run [Draw lineA] mounted = afterLine" by (simp add: afterLine_def)
  note H = fresh_history[OF mounted_fresh w, unfolded r]
  show e: "elements afterLine = [lineA]"
    unfolding afterLine_def using commit_Draw(5)[OF lineA_valid, of mounted]
    by (simp add: mounted_state)
  show "elements afterRect = [lineA, rectA]"
    unfolding afterRect_def using commit_Draw(5)[OF shapes_valid(1), of afterLine] e by simp
  have h: "history afterLine = [[], []]" "historyIndex afterLine = 2"
    using H(1,2) by (simp_all add: mounted_state)
  have "history afterRect = history (saveToHistory afterLine)"
    "historyIndex afterRect = historyIndex (saveToHistory afterLine)"
    unfolding afterRect_def by (rule commit_Draw[OF shapes_valid(1)])+
  then show "history afterRect = [[], [], [lineA]]" "historyIndex afterRect = 3"
    using h e by (simp_all add: save_pushed pushed_def)
  show "redoStack afterRect = []"
    unfolding afterRect_def by (rule commit_Draw(3)[OF shapes_valid(1)])
qed

text \<open>
  The drawing of the rounds through its pointer events: with the line tool, the pointer
  goes down at (0, 0), moves to (10, 10) and goes up. The state this leaves is the one
  of \<open>Draw (lineAt i)\<close>, and the tool chosen for the drawing is of no account for
  the drag that follows.
\<close>

lemma line_by_pointer:
  assumes "atOrigin s" "\<not> isDragging s" "color s = ''#000000''" "size_brush s = 3"
  shows "handleEnd (handleMove (MouseEvent 0 False 10 10)
           (handleStart (MouseEvent 0 False 0 0) i (setTool line_tool s))) =
         commit (Draw (lineAt i)) (setTool line_tool s)"
proof -
  let ?s = "setTool line_tool s"
  have o: "atOrigin ?s" using assms(1) by (simp add: atOrigin_def setTool_def)
  have t: "isShapeTool (tool ?s)" by (simp add: setTool_def isShapeTool_def)
  have f: "\<not> isPanning ?s" "\<not> isDragging ?s"
    using assms(1,2) by (simp_all add: atOrigin_def setTool_def)
  let ?p = "newShapeElement i \<lparr>x_pt = 0, y_pt = 0\<rparr> ?s"
  let ?a = "?s\<lparr>isDrawing := True, currentElement := Some ?p\<rparr>"
  have a: "handleStart (MouseEvent 0 False 0 0) i ?s = ?a"
    unfolding shape_start[OF t] atOrigin_world[OF o] by simp
  have oa: "atOrigin ?a" using o by (simp add: atOrigin_def)
  have m: "handleMove (MouseEvent 0 False 10 10) ?a =
      ?s\<lparr>isDrawing := True, currentElement := Some (lineAt i)\<rparr>"
    unfolding handleMove_def Let_def atOrigin_world[OF oa]
    using f assms(3,4)
    by (simp add: newShapeElement_def shapeType_def setTool_def lineAt_def lineA_def hasEnd_def)
  have e: "?s\<lparr>isPanning := False, isDragging := False, isDrawing := True,
        currentElement := Some (lineAt i)\<rparr> =
      ?s\<lparr>isDrawing := True, currentElement := Some (lineAt i)\<rparr>"
    using f by (cases s) (simp add: setTool_def)
  show ?thesis unfolding a m commit.simps e ..
qed

lemma setTool_twice: "setTool t (setTool u s) = setTool t s"
  by (simp add: setTool_def)

lemma save_eq:
  "saveToHistory s =
     s\<lparr>history := fst (pushed (elements s) (history s) (historyIndex s)),
       historyIndex := snd (pushed (elements s) (history s) (historyIndex s)),
       redoStack := [], redoCount := 0,
       undoCount :=
         (if length (fst (pushed (elements s) (history s) (historyIndex s))) > 1
          then length (fst (pushed (elements s) (history s) (historyIndex s))) - 1 else 0)\<rparr>"
  by (simp add: saveToHistory_def pushed_def Let_def)

lemma draw_setTool: "commit (Draw el) (setTool t s) = setTool t (commit (Draw el) s)"
  by (simp add: handleEnd_def Let_def debouncedSave_def setTool_def save_eq)

lemma line_then_drag_by_pointer:
  assumes "atOrigin s" "\<not> isDragging s" "color s = ''#000000''" "size_brush s = 3"
  shows "commit (Drag x1 y1 x2 y2)
           (handleEnd (handleMove (MouseEvent 0 False 10 10)
              (handleStart (MouseEvent 0 False 0 0) i (setTool line_tool s)))) =
         commit (Drag x1 y1 x2 y2) (commit (Draw (lineAt i)) s)"
  unfolding line_by_pointer[OF assms] draw_setTool
  by (simp only: commit.simps setTool_twice)

section \<open>The claims\<close>

subsection \<open>C1: undo with nothing to undo\<close>

text \<open>
  Claim C1 says that \<open>handleUndo\<close> changes nothing when no committed mutation is
  there to be reverted. The code at the freshly mounted component, where the history
  holds the initial snapshot only and the undo count shown is 0: the document stays
  empty, but a snapshot of it is pushed onto the redo stack, the redo count becomes 1
  and the history index drops from 1 to 0.
\<close>

theorem undo_with_nothing_to_undo:
  "elements mounted = [] \<and> history mounted = [[]] \<and> historyIndex mounted = 1 \<and>
   redoStack mounted = [] \<and> undoCount mounted = 0 \<and>
   elements (handleUndo mounted) = [] \<and>
   redoStack (handleUndo mounted) = [[]] \<and>
   redoCount (handleUndo mounted) = 1 \<and>
   historyIndex (handleUndo mounted) = 0"
  by (simp add: mounted_state handleUndo_def snapshotAt_def Let_def)

subsection \<open>C2: undo and redo as inverses\<close>

text \<open>
  Claim C2 says that \<open>N\<close> calls of \<open>handleUndo\<close> after \<open>N\<close> committed mutations
  return the document to the state before them, whatever that state was, and that
  \<open>N\<close> calls of \<open>handleRedo\<close> then restore the document the mutations had
  produced. The code at \<open>N = 1\<close>: the document holds one line, a rectangle is drawn
  and \<open>handleUndo\<close> is called once. The document is then empty, it is not the
  document of the one line: \<open>handleUndo\<close> passes over the snapshot that the drawing
  pushed and restores the one below it. \<open>handleRedo\<close> restores the document of the
  two elements, as claimed.
\<close>

theorem undo_passes_over_a_state:
  "elements afterLine = [lineA] \<and>
   commits (Draw rectA) afterLine \<and>
   elements (commit (Draw rectA) afterLine) = [lineA, rectA] \<and>
   elements (handleUndo (commit (Draw rectA) afterLine)) = [] \<and>
   elements (handleRedo (handleUndo (commit (Draw rectA) afterLine))) = [lineA, rectA]"
proof -
  have c: "commits (Draw rectA) afterLine" by (simp add: shapes_valid)
  have i: "historyIndex afterRect = Suc (Suc 1)" by (simp add: afterRect_state)
  have "elements (handleUndo afterRect) = history afterRect ! 1"
    by (rule undo_elements[OF i]) (simp add: afterRect_state)
  then have u: "elements (handleUndo afterRect) = []" by (simp add: afterRect_state)
  have "1 \<le> historyIndex afterRect" by (simp add: afterRect_state)
  from undo_then_redo[OF this afterRect_state(5)]
  have r: "elements (handleRedo (handleUndo afterRect)) = [lineA, rectA]"
    by (simp add: afterRect_state)
  from c u r afterRect_state(1,2) show ?thesis
    unfolding afterRect_def by blast
qed

subsection \<open>C3: a snapshot before every mutation\<close>

text \<open>
  Claim C3 says that every operation that changes the document, \<open>clearCanvas\<close>
  among them, pushes a snapshot of the document as it was and leaves the redo stack
  empty. The code after three drawings and one undo, where the document holds a line and
  the redo stack holds one snapshot: \<open>clearCanvas\<close> empties the document, pushes
  nothing onto the history and leaves the redo stack as it was.
\<close>

theorem clear_takes_no_snapshot:
  "elements undone = [lineA] \<and> redoStack undone = [[lineA, rectA, circleA]] \<and>
   history undone = [[], [], [lineA], [lineA, rectA]] \<and> historyIndex undone = 3 \<and>
   elements (clearCanvas undone) = [] \<and>
   history (clearCanvas undone) = [[], [], [lineA], [lineA, rectA]] \<and>
   historyIndex (clearCanvas undone) = 3 \<and>
   redoStack (clearCanvas undone) = [[lineA, rectA, circleA]] \<and>
   saveRequests (clearCanvas undone) = saveRequests undone"
  by (simp add: undone_state clearCanvas_def)

subsection \<open>C4: the path of a stroke grows with every move\<close>

text \<open>
  Claim C4 says that every pointer-move during a drawing with the pencil or the eraser
  appends the pointer's world position to the path of the in-progress element. The code
  for the eraser, at a pointer-down at (10, 10) and a move to (60, 70): \<open>handleMove\<close>
  tests for the type \<open>pencil\<close> only, the eraser's path stays at its first point, and
  \<open>handleEnd\<close> then drops the stroke as too short. The same two events with the
  pencil give a path of two points.
\<close>

theorem eraser_path_stays_at_one_point:
  "currentElement eraserStarted = Some eraserDot \<and>
   points eraserDot = Some [\<lparr>x_pt = 10, y_pt = 10\<rparr>] \<and>
   currentElement eraserMoved = Some eraserDot \<and>
   elements (handleEnd eraserMoved) = [] \<and> history (handleEnd eraserMoved) = [[]] \<and>
   map_option points (currentElement penMoved) =
     Some (Some [\<lparr>x_pt = 10, y_pt = 10\<rparr>, \<lparr>x_pt = 60, y_pt = 70\<rparr>])"
proof -
  have c: "currentElement eraserStarted = Some eraserDot" by (simp add: eraserStarted_eq)
  have p: "points eraserDot = Some [\<lparr>x_pt = 10, y_pt = 10\<rparr>]" by (simp add: eraserDot_def)
  have "handleEnd eraserStarted = eraserStarted\<lparr>isDrawing := False, currentElement := None\<rparr>"
    by (rule end_drawing_invalid[where cur = eraserDot])
      (simp_all add: eraserStarted_eq mounted_state eraserDot_invalid)
  then have e: "elements (handleEnd eraserMoved) = []" "history (handleEnd eraserMoved) = [[]]"
    by (simp_all add: eraserMoved_eq) (simp_all add: eraserStarted_eq mounted_state)
  from c p e penMoved_points show ?thesis by (simp add: eraserMoved_eq)
qed

subsection \<open>C5: zoom anchored at the pointer\<close>

text \<open>
  Claim C5. For every wheel event with the control key held, over a mounted canvas and a
  transform of positive scale, the world point under the pointer is the same before and
  after \<open>handleWheel\<close>: \<open>screenToWorld\<close> of the pointer's canvas position gives
  the same point under the new transform as under the old one. The new scale lies
  between 0.1 and 10.
\<close>

theorem zoom_keeps_pointer_fixed:
  assumes "canvasRect s \<noteq> None" and "ctrlKey e" and "0 < scale (transform s)"
  shows "worldPosOf (wheelPos e s) (handleWheel e s) = worldPosOf (wheelPos e s) s \<and>
         0.1 \<le> scale (transform (handleWheel e s)) \<and>
         scale (transform (handleWheel e s)) \<le> 10"
proof -
  obtain rl rt where r: "canvasRect s = Some (rl, rt)" using assms(1) by (cases "canvasRect s") auto
  note z = zoom_transform[OF r assms(2)]
  have lo: "0.1 \<le> scale (transform (handleWheel e s))" unfolding z(1) by simp
  have hi: "scale (transform (handleWheel e s)) \<le> 10" unfolding z(1) by simp
  have pos: "scale (transform (handleWheel e s)) \<noteq> 0" using lo by simp
  have "worldPosOf (wheelPos e s) (handleWheel e s) = worldPosOf (wheelPos e s) s"
    unfolding worldPosOf_def screenToWorld_def z(2,3) using pos by simp
  with lo hi show ?thesis by simp
qed

text \<open>
  The statement for the pointer at (100, 100) and a wheel delta that takes the scale
  from 1 to 2.
\<close>

theorem zoom_keeps_pointer_fixed_witness:
  "canvasRect mounted \<noteq> None \<and> ctrlKey zoomIn \<and> 0 < scale (transform mounted) \<and>
   scale (transform (handleWheel zoomIn mounted)) = 2 \<and>
   worldPosOf (wheelPos zoomIn mounted) (handleWheel zoomIn mounted) =
     worldPosOf (wheelPos zoomIn mounted) mounted \<and>
   0.1 \<le> scale (transform (handleWheel zoomIn mounted)) \<and>
   scale (transform (handleWheel zoomIn mounted)) \<le> 10"
proof -
  have c: "canvasRect mounted \<noteq> None"
    by (simp add: mounted_def initializeHistory_def newWhiteboard_def)
  have k: "ctrlKey zoomIn" by (simp add: zoomIn_def)
  have p: "0 < scale (transform mounted)"
    by (simp add: mounted_def initializeHistory_def newWhiteboard_def)
  have two: "scale (transform (handleWheel zoomIn mounted)) = 2"
    by (simp add: handleWheel_def zoomIn_def mounted_def initializeHistory_def
        newWhiteboard_def Let_def)
  from zoom_keeps_pointer_fixed[OF c k p] c k p two show ?thesis by blast
qed

subsection \<open>C6: from world to screen and back\<close>

text \<open>
  Claim C6. For every transform \<open>t\<close> whose scale is positive and every world point
  \<open>p\<close>, \<open>screenToWorld\<close> applied to \<open>worldToScreen\<close> of \<open>p\<close>, both under
  \<open>t\<close>, is \<open>p\<close> again. The numbers are reals, so the equality is exact.
\<close>

theorem screen_world_round_trip:
  fixes p :: Point
  assumes "0 < scale t"
  shows "screenToWorld
           (x_pt (worldToScreen (x_pt p) (y_pt p) (scale t) (offset t)))
           (y_pt (worldToScreen (x_pt p) (y_pt p) (scale t) (offset t)))
           (scale t) (offset t) = p"
  using assms by (simp add: screenToWorld_def worldToScreen_def)

text \<open>The statement at scale 2, offset (3, 4) and the point (5, 6).\<close>

theorem screen_world_round_trip_witness:
  "0 < scale \<lparr>scale = 2, offset = \<lparr>x_pt = 3, y_pt = 4\<rparr>\<rparr> \<and>
   screenToWorld
     (x_pt (worldToScreen 5 6 2 \<lparr>x_pt = 3, y_pt = 4\<rparr>))
     (y_pt (worldToScreen 5 6 2 \<lparr>x_pt = 3, y_pt = 4\<rparr>))
     2 \<lparr>x_pt = 3, y_pt = 4\<rparr> = \<lparr>x_pt = 5, y_pt = 6\<rparr>"
  using screen_world_round_trip
    [of "\<lparr>scale = 2, offset = \<lparr>x_pt = 3, y_pt = 4\<rparr>\<rparr>" "\<lparr>x_pt = 5, y_pt = 6\<rparr>"]
  by simp

subsection \<open>C7: the topmost element under the pointer\<close>

text \<open>
  Claim C7 says that \<open>getElementAtPosition\<close> returns the last element of the
  sequence whose per-type test matches. The code at the point (10, 11) with threshold 5,
  for a rectangle from (0, 0) to (20, 20) below a circle drawn from (0, 0) to (20, 2):
  the point lies on the circle of radius 10 around (10, 1), so the per-type test of the
  circle matches, as that of the rectangle does; but the bounding box of the circle is
  computed from its two corners, the point is outside that box widened by 5, the circle
  is skipped and the rectangle below it is returned. With the circle alone the result is
  \<open>null\<close>.
\<close>

theorem topmost_circle_missed:
  "detailedHit 10 11 rectA 5 \<and> detailedHit 10 11 circleA 5 \<and>
   getElementAtPosition 10 11 [rectA, circleA] 5 = Some rectA \<and>
   getElementAtPosition 10 11 [circleA] 5 = None"
proof -
  have a: "getElementAtPosition 10 11 [rectA, circleA] 5 = Some rectA"
    by (simp add: getElementAtPosition_def circle_skipped rect_hit Let_def)
  have b: "getElementAtPosition 10 11 [circleA] 5 = None"
    by (simp add: getElementAtPosition_def circle_skipped Let_def)
  from a b circle_skipped(1) rect_hit(1) show ?thesis by simp
qed

subsection \<open>C8: the bound of the history\<close>

text \<open>
  Claim C8, amended. From the freshly mounted component, after 60 committed mutations
  (drawings, text entries, drags of an element with the select tool, deletions of the
  selected element) the history holds exactly 50 snapshots: the ones that the 11th to
  the 60th mutation pushed, the older ones having been shifted out first. 50 calls of
  \<open>handleUndo\<close> then yield the snapshot that the 11th mutation pushed; it is not
  empty when the 10th mutation added an element (a drawing or a text), and it can be
  empty when elements were deleted.
\<close>

theorem history_bound_60:
  assumes "fresh s" and "allCommit s ms" and "length ms = 60"
  shows "length (history (run ms s)) = 50 \<and>
         history (run ms s) = drop 10 (snapshots s ms) \<and>
         elements ((handleUndo ^^ 50) (run ms s)) = snapshots s ms ! 10 \<and>
         (adds (ms ! 9) \<longrightarrow> elements ((handleUndo ^^ 50) (run ms s)) \<noteq> [])"
proof -
  let ?t = "run ms s"
  let ?u = "run (take 10 ms) s"
  note S = sixty_then_fifty_undos[OF assms]
  have n: "snapshots s ms ! 10 = snapshotOf (ms ! 10) ?u"
    by (rule snapshots_nth) (simp add: assms(3))
  have u: "elements ((handleUndo ^^ 50) ?t) = snapshots s ms ! 10" using S(3) n by simp
  have c: "commits (ms ! 10) ?u" by (rule allCommit_nth[OF assms(2)]) (simp add: assms(3))
  have "elements ((handleUndo ^^ 50) ?t) \<noteq> []" if a: "adds (ms ! 9)"
  proof
    assume "elements ((handleUndo ^^ 50) ?t) = []"
    then have "snapshotOf (ms ! 10) ?u = []" using S(3) by simp
    from snapshot_empty[OF c this] have "elements ?u = []" .
    moreover have "elements (run (take (Suc 9) ms) s) \<noteq> []"
      by (rule run_take_adds[OF assms(2) _ a]) (simp add: assms(3))
    ultimately show False by simp
  qed
  with S(1,2) u show ?thesis by blast
qed

text \<open>The statement at sixty drawings of a line.\<close>

theorem history_bound_60_witness:
  "fresh mounted \<and> allCommit mounted sixtyLines \<and> length sixtyLines = 60 \<and>
   adds (sixtyLines ! 9) \<and>
   length (history (run sixtyLines mounted)) = 50 \<and>
   history (run sixtyLines mounted) = drop 10 (snapshots mounted sixtyLines) \<and>
   elements ((handleUndo ^^ 50) (run sixtyLines mounted)) = snapshots mounted sixtyLines ! 10 \<and>
   elements ((handleUndo ^^ 50) (run sixtyLines mounted)) \<noteq> []"
proof -
  note w = sixtyLines_run
  from history_bound_60[OF mounted_fresh w(1,2)] mounted_fresh w show ?thesis by blast
qed

text \<open>
  The claim as it is written, a document that is not empty after 50 undos whatever the 60
  mutations were, fails for rounds in which a line is drawn, dragged and deleted. Each
  of the 60 mutations pushes one snapshot. The first ten of them are two rounds of three
  and one round of four and leave the document empty; the 11th draws a line, and the
  snapshot it pushes, the empty document, is where 50 undos end.
\<close>

theorem undo_reaches_empty_counterexample:
  "fresh mounted \<and> allCommit mounted sixtyMutations \<and> length sixtyMutations = 60 \<and>
   length (history (run sixtyMutations mounted)) = 50 \<and>
   elements ((handleUndo ^^ 50) (run sixtyMutations mounted)) = []"
proof -
  note w = sixtyMutations_run
  note S = sixty_then_fifty_undos[OF mounted_fresh w(1,2)]
  have "elements ((handleUndo ^^ 50) (run sixtyMutations mounted)) =
      snapshotOf (Draw (lineAt (stamp 3))) (run tenMutations mounted)"
    using S(3) by (simp only: w(3,4))
  also have "\<dots> = []" by (simp add: tenMutations_run(2))
  finally show ?thesis using mounted_fresh w(1,2) S(1) by blast
qed

subsection \<open>C9: a click without a drag draws nothing\<close>

text \<open>
  Claim C9. From the idle state and with a shape tool (line, arrow, rectangle, circle),
  a pointer-down followed at once by the pointer-up adds no element and takes no
  snapshot: document, history, index, redo stack and save requests are as before and no
  in-progress element is left. In general, at the end of a drawing the in-progress
  element is appended to the document, after a snapshot, exactly when \<open>handleEnd\<close>
  finds it valid, and is dropped with nothing else changed otherwise; a path is valid
  exactly when it has at least two points, a shape exactly when its bounding box is
  more than 1 wide or more than 1 high.
\<close>

theorem degenerate_draw_discarded:
  "(idle s \<and> isShapeTool (tool s) \<longrightarrow>
      elements (handleEnd (handleStart e now s)) = elements s \<and>
      history (handleEnd (handleStart e now s)) = history s \<and>
      historyIndex (handleEnd (handleStart e now s)) = historyIndex s \<and>
      redoStack (handleEnd (handleStart e now s)) = redoStack s \<and>
      saveRequests (handleEnd (handleStart e now s)) = saveRequests s \<and>
      currentElement (handleEnd (handleStart e now s)) = None) \<and>
   (\<not> isPanning t \<and> \<not> isDragging t \<and> isDrawing t \<and> currentElement t = Some cur \<longrightarrow>
      currentElement (handleEnd t) = None \<and>
      (isValid cur \<longrightarrow>
         elements (handleEnd t) = elements t @ [cur] \<and>
         history (handleEnd t) = history (saveToHistory t)) \<and>
      (\<not> isValid cur \<longrightarrow>
         elements (handleEnd t) = elements t \<and> history (handleEnd t) = history t \<and>
         historyIndex (handleEnd t) = historyIndex t \<and> redoStack (handleEnd t) = redoStack t \<and>
         saveRequests (handleEnd t) = saveRequests t)) \<and>
   (isPath el \<and> \<not> hasEnd el \<longrightarrow>
      (isValid el \<longleftrightarrow> (\<exists>ps. points el = Some ps \<and> 2 \<le> length ps))) \<and>
   (\<not> isPath el \<and> hasEnd el \<longrightarrow>
      (isValid el \<longleftrightarrow>
         1 < maxX (getElementBounds el) - minX (getElementBounds el) \<or>
         1 < maxY (getElementBounds el) - minY (getElementBounds el)))"
proof (intro conjI)
  show "idle s \<and> isShapeTool (tool s) \<longrightarrow>
      elements (handleEnd (handleStart e now s)) = elements s \<and>
      history (handleEnd (handleStart e now s)) = history s \<and>
      historyIndex (handleEnd (handleStart e now s)) = historyIndex s \<and>
      redoStack (handleEnd (handleStart e now s)) = redoStack s \<and>
      saveRequests (handleEnd (handleStart e now s)) = saveRequests s \<and>
      currentElement (handleEnd (handleStart e now s)) = None"
    using click_discarded[of s e now] by blast
next
  show "\<not> isPanning t \<and> \<not> isDragging t \<and> isDrawing t \<and> currentElement t = Some cur \<longrightarrow>
      currentElement (handleEnd t) = None \<and>
      (isValid cur \<longrightarrow>
         elements (handleEnd t) = elements t @ [cur] \<and>
         history (handleEnd t) = history (saveToHistory t)) \<and>
      (\<not> isValid cur \<longrightarrow>
         elements (handleEnd t) = elements t \<and> history (handleEnd t) = history t \<and>
         historyIndex (handleEnd t) = historyIndex t \<and> redoStack (handleEnd t) = redoStack t \<and>
         saveRequests (handleEnd t) = saveRequests t)"
  proof
    assume a: "\<not> isPanning t \<and> \<not> isDragging t \<and> isDrawing t \<and> currentElement t = Some cur"
    then have d: "\<not> isPanning t" "\<not> isDragging t" "isDrawing t" "currentElement t = Some cur"
      by simp_all
    show "currentElement (handleEnd t) = None \<and>
      (isValid cur \<longrightarrow>
         elements (handleEnd t) = elements t @ [cur] \<and>
         history (handleEnd t) = history (saveToHistory t)) \<and>
      (\<not> isValid cur \<longrightarrow>
         elements (handleEnd t) = elements t \<and> history (handleEnd t) = history t \<and>
         historyIndex (handleEnd t) = historyIndex t \<and> redoStack (handleEnd t) = redoStack t \<and>
         saveRequests (handleEnd t) = saveRequests t)"
    proof (cases "isValid cur")
      case True
      from end_drawing_valid[OF d True] True show ?thesis by simp
    next
      case False
      from end_drawing_invalid[OF d False] False show ?thesis by simp
    qed
  qed
next
  show "isPath el \<and> \<not> hasEnd el \<longrightarrow>
      (isValid el \<longleftrightarrow> (\<exists>ps. points el = Some ps \<and> 2 \<le> length ps))"
    using valid_path[of el] by blast
next
  show "\<not> isPath el \<and> hasEnd el \<longrightarrow>
      (isValid el \<longleftrightarrow>
         1 < maxX (getElementBounds el) - minX (getElementBounds el) \<or>
         1 < maxY (getElementBounds el) - minY (getElementBounds el))"
    using valid_shape[of el] by blast
qed

text \<open>
  The statement for the rectangle tool: a click at (10, 10), the same pointer-down
  followed by a move to (60, 70), and the two kinds of element.
\<close>

theorem degenerate_draw_discarded_witness:
  "idle rectReady \<and> isShapeTool (tool rectReady) \<and>
   elements (handleEnd (handleStart click ''1'' rectReady)) = [] \<and>
   history (handleEnd (handleStart click ''1'' rectReady)) = [[]] \<and>
   currentElement (handleEnd (handleStart click ''1'' rectReady)) = None \<and>
   \<not> isPanning rectStarted \<and> \<not> isDragging rectStarted \<and> isDrawing rectStarted \<and>
   currentElement rectStarted = Some rectPoint \<and> \<not> isValid rectPoint \<and>
   elements (handleEnd rectStarted) = [] \<and>
   \<not> isPanning rectDrawn \<and> \<not> isDragging rectDrawn \<and> isDrawing rectDrawn \<and>
   currentElement rectDrawn = Some rectBox \<and> isValid rectBox \<and>
   elements (handleEnd rectDrawn) = [rectBox] \<and>
   isPath strokeA \<and> \<not> hasEnd strokeA \<and> isValid strokeA \<and>
   (\<exists>ps. points strokeA = Some ps \<and> 2 \<le> length ps) \<and>
   \<not> isPath rectBox \<and> hasEnd rectBox \<and>
   (1 < maxX (getElementBounds rectBox) - minX (getElementBounds rectBox) \<or>
    1 < maxY (getElementBounds rectBox) - minY (getElementBounds rectBox))"
proof -
  note r = rectReady_state
  note s = rect_states
  from degenerate_draw_discarded[of rectReady click "''1''" rectStarted rectPoint strokeA] r(1,2)
  have 1: "elements (handleEnd (handleStart click ''1'' rectReady)) = elements rectReady"
    "history (handleEnd (handleStart click ''1'' rectReady)) = history rectReady"
    "currentElement (handleEnd (handleStart click ''1'' rectReady)) = None"
    by blast+
  from degenerate_draw_discarded[of rectReady click "''1''" rectStarted rectPoint strokeA]
    s(1-4) rectBox_shape(4)
  have 2: "elements (handleEnd rectStarted) = elements rectStarted" by blast
  from degenerate_draw_discarded[of rectReady click "''1''" rectStarted rectPoint strokeA]
    strokeA_shape
  have 3: "\<exists>ps. points strokeA = Some ps \<and> 2 \<le> length ps" by blast
  from degenerate_draw_discarded[of rectReady click "''1''" rectDrawn rectBox rectBox]
    s(5-8) rectBox_shape(1-3)
  have d4: "elements (handleEnd rectDrawn) = elements rectDrawn @ [rectBox]"
    and d5: "1 < maxX (getElementBounds rectBox) - minX (getElementBounds rectBox) \<or>
    1 < maxY (getElementBounds rectBox) - minY (getElementBounds rectBox)"
    by blast+
  have e1: "elements (handleEnd (handleStart click ''1'' rectReady)) = []"
    "history (handleEnd (handleStart click ''1'' rectReady)) = [[]]"
    using 1 r by simp_all
  have e2: "elements (handleEnd rectStarted) = []" using 2 s(9) by simp
  have e4: "elements (handleEnd rectDrawn) = [rectBox]" using d4 s(10) by simp
  from r(1,2) e1 1(3) s(1-8) rectBox_shape e2 e4 strokeA_shape 3 d5 show ?thesis by blast
qed

subsection \<open>C10: committing a text entry\<close>

text \<open>
  Claim C10. \<open>handleTextCommit\<close> trims the entered string: the stored text is the
  entry without its leading and trailing white space, it neither starts nor ends with
  white space, and what was cut off is white space only. An entry that is empty or
  consists of white space only adds no element, takes no snapshot and requests no save:
  document, history, index and redo stack stay as they are. Any other entry, with the
  text input open and the canvas mounted, appends one text element that stores the
  trimmed string, after a snapshot, and requests a save.
\<close>

theorem text_commit_trims:
  "((\<forall>c\<in>set tx. isWhiteSpace c) \<longrightarrow>
      elements (handleTextCommit tx now s) = elements s \<and>
      history (handleTextCommit tx now s) = history s \<and>
      historyIndex (handleTextCommit tx now s) = historyIndex s \<and>
      redoStack (handleTextCommit tx now s) = redoStack s \<and>
      saveRequests (handleTextCommit tx now s) = saveRequests s) \<and>
   (\<not> (\<forall>c\<in>set tx. isWhiteSpace c) \<and> textInputState s \<noteq> None \<and> canvasRect s \<noteq> None \<longrightarrow>
      (\<exists>el. elements (handleTextCommit tx now s) = elements s @ [el] \<and>
            type_el el = text_el \<and> text_of el = Some (trim tx)) \<and>
      history (handleTextCommit tx now s) = history (saveToHistory s) \<and>
      saveRequests (handleTextCommit tx now s) = Suc (saveRequests s)) \<and>
   (\<exists>a b. tx = a @ trim tx @ b \<and> list_all isWhiteSpace a \<and> list_all isWhiteSpace b) \<and>
   (trim tx \<noteq> [] \<longrightarrow> \<not> isWhiteSpace (hd (trim tx)) \<and> \<not> isWhiteSpace (last (trim tx)))"
proof (intro conjI impI)
  assume "\<forall>c\<in>set tx. isWhiteSpace c"
  then have b: "trim tx = []" by (simp only: trim_blank)
  show "elements (handleTextCommit tx now s) = elements s"
    and "history (handleTextCommit tx now s) = history s"
    and "historyIndex (handleTextCommit tx now s) = historyIndex s"
    and "redoStack (handleTextCommit tx now s) = redoStack s"
    and "saveRequests (handleTextCommit tx now s) = saveRequests s"
    by (rule blank_commit[OF b])+
next
  assume a: "\<not> (\<forall>c\<in>set tx. isWhiteSpace c) \<and> textInputState s \<noteq> None \<and> canvasRect s \<noteq> None"
  then have n: "trim tx \<noteq> []" by (simp only: trim_blank) simp
  from a obtain ti r where t: "textInputState s = Some ti" and r: "canvasRect s = Some r"
    by blast
  note c = text_commit[OF n t r, of now]
  show "\<exists>el. elements (handleTextCommit tx now s) = elements s @ [el] \<and>
            type_el el = text_el \<and> text_of el = Some (trim tx)"
    unfolding c(1) by simp
  show "history (handleTextCommit tx now s) = history (saveToHistory s)" by (rule c(2))
  show "saveRequests (handleTextCommit tx now s) = Suc (saveRequests s)" by (rule c(3))
next
  show "\<exists>a b. tx = a @ trim tx @ b \<and> list_all isWhiteSpace a \<and> list_all isWhiteSpace b"
    by (rule trim_decomposition)
next
  assume "trim tx \<noteq> []"
  then show "\<not> isWhiteSpace (hd (trim tx))" and "\<not> isWhiteSpace (last (trim tx))"
    using trim_ends by blast+
qed

text \<open>
  The statement at the text input opened by a click with the text tool: an entry of a
  space and a tab is dropped, the entry \<open>" hi "\<close> is stored as \<open>"hi"\<close>.
\<close>

theorem text_commit_trims_witness:
  "list_all isWhiteSpace [0x20, 0x9] \<and>
   elements (handleTextCommit [0x20, 0x9] ''7'' textOpen) = elements textOpen \<and>
   history (handleTextCommit [0x20, 0x9] ''7'' textOpen) = history textOpen \<and>
   saveRequests (handleTextCommit [0x20, 0x9] ''7'' textOpen) = saveRequests textOpen \<and>
   \<not> list_all isWhiteSpace [0x20, 0x68, 0x69, 0x20] \<and>
   textInputState textOpen \<noteq> None \<and> canvasRect textOpen \<noteq> None \<and>
   trim [0x20, 0x68, 0x69, 0x20] = [0x68, 0x69] \<and>
   map text_of (elements (handleTextCommit [0x20, 0x68, 0x69, 0x20] ''7'' textOpen)) =
     [Some [0x68, 0x69]]"
proof -
  have b: "\<forall>c\<in>set [0x20, 0x9]. isWhiteSpace c" by (simp add: isWhiteSpace_def)
  have n: "\<not> (\<forall>c\<in>set [0x20, 0x68, 0x69, 0x20]. isWhiteSpace c)" by (simp add: isWhiteSpace_def)
  have t: "trim [0x20, 0x68, 0x69, 0x20] = [0x68, 0x69]" by (simp add: trim_def isWhiteSpace_def)
  from text_commit_trims[of "[0x20, 0x9]" "''7''" textOpen] b
  have 1: "elements (handleTextCommit [0x20, 0x9] ''7'' textOpen) = elements textOpen"
    "history (handleTextCommit [0x20, 0x9] ''7'' textOpen) = history textOpen"
    "saveRequests (handleTextCommit [0x20, 0x9] ''7'' textOpen) = saveRequests textOpen"
    by blast+
  from text_commit_trims[of "[0x20, 0x68, 0x69, 0x20]" "''7''" textOpen] n textOpen_state(1,2)
  obtain el where "elements (handleTextCommit [0x20, 0x68, 0x69, 0x20] ''7'' textOpen) =
      elements textOpen @ [el]" "text_of el = Some (trim [0x20, 0x68, 0x69, 0x20])"
    by blast
  then have 2: "map text_of (elements (handleTextCommit [0x20, 0x68, 0x69, 0x20] ''7'' textOpen)) =
     [Some [0x68, 0x69]]" by (simp add: textOpen_state(3) t)
  from b have b': "list_all isWhiteSpace [0x20, 0x9]" by (simp add: list_all_iff)
  from n have n': "\<not> list_all isWhiteSpace [0x20, 0x68, 0x69, 0x20]" by (simp add: list_all_iff)
  from 1 2 b' n' t textOpen_state(1,2) show ?thesis by blast
qed

end
